theory Spec2Isabelle
  imports Main "HOL-Library.Sublist"
begin

section \<open>Data model of the agent controller\<close>

text \<open>
  The controller is the class \<open>AutonomousAgent\<close>. Its collaborators are modelled as follows.

  \<^item> The two callbacks \<open>renderMessage\<close> and \<open>shutdown\<close> are owned by the caller; what the
    controller does to them is recorded, in order, in the field \<open>effects\<close>. The same record
    notes every invocation of the task-execution capability (\<open>AgentService.executeTaskAgent\<close>
    or \<open>axios.post\<close>).
    Both callbacks return; the section on a message sink that throws has the operations for
    a \<open>renderMessage\<close> that may throw, and shows that they are the operations given here when
    it does not.
  \<^item> The constants of \<open>utils/constants\<close>, the answers of the task-execution capability and
    the calls that the page makes to \<open>stopAgent\<close> while the run is suspended are parameters,
    collected in the record \<open>env\<close>. An answer may depend on the moment of the request, which
    is the first argument of \<open>executeTaskAgent\<close> and \<open>axios_post\<close>; the answer of
    \<open>axios_post\<close> is the \<open>response\<close> field of the data received.
  \<^item> JavaScript runs the asynchronous methods to completion between two \<open>await\<close>s. Handlers
    of the page (the stop button) run only while the controller is suspended at an \<open>await\<close>
    on a timer or on the network. The field \<open>awaits\<close> counts the suspensions passed so far;
    \<open>stopCalls env n\<close> is the number of \<open>stopAgent\<close> calls made during suspension \<open>n\<close>.
\<close>

datatype MessageType = Goal | Thinking | Task | Action | System

record Message =
  type' :: MessageType
  info :: "string option"
  value' :: string

record ModelSettings =
  customApiKey :: "string option"
  customModelName :: string
  customMaxLoops :: "int option"

record User =
  subscriptionId :: "string option"

record Session =
  user :: User

datatype RequestBody = RequestBody ModelSettings string string

text \<open>
  A rejected promise: an axios error with the status of its response (if there is a
  response), or any other thrown value.
\<close>

datatype failure = AxiosError "nat option" | OtherError

datatype effect = Rendered Message | Shutdown | Executed string

record agent =
  name :: string
  goal :: string
  tasks :: "string list"
  completedTasks :: "string list"
  runningTasks :: "string list"
  modelSettings :: ModelSettings
  isRunning :: bool
  numLoops :: int
  session :: "Session option"
  effects :: "effect list"
  awaits :: nat

record env =
  DEFAULT_MAX_LOOPS_CUSTOM_API_KEY :: int
  DEFAULT_MAX_LOOPS_FREE :: int
  DEFAULT_MAX_LOOPS_PAID :: int
  executeTaskAgent :: "nat \<Rightarrow> ModelSettings \<Rightarrow> string \<Rightarrow> string \<Rightarrow> failure + string"
  axios_post :: "nat \<Rightarrow> string \<Rightarrow> RequestBody \<Rightarrow> failure + string"
  stopCalls :: "nat \<Rightarrow> nat"

text \<open>The constructor; the random identifier \<open>_id\<close> plays no role and is left out.\<close>

definition new_agent ::
  "string \<Rightarrow> string \<Rightarrow> ModelSettings \<Rightarrow> Session option \<Rightarrow> agent" where
  "new_agent n g ms s =
     \<lparr> name = n, goal = g, tasks = [], completedTasks = [], runningTasks = [],
       modelSettings = ms, isRunning = True, numLoops = 0, session = s,
       effects = [], awaits = 0 \<rparr>"

section \<open>Messages\<close>

text \<open>JavaScript truthiness of an optional string: \<open>undefined\<close> and \<open>""\<close> are falsy.\<close>

definition truthy_string :: "string option \<Rightarrow> bool" where
  "truthy_string s = (case s of None \<Rightarrow> False | Some x \<Rightarrow> x \<noteq> [])"

definition sendMessage :: "agent \<Rightarrow> Message \<Rightarrow> agent" where
  "sendMessage a m =
     (if isRunning a then a\<lparr>effects := effects a @ [Rendered m]\<rparr> else a)"

definition shutdown :: "agent \<Rightarrow> agent" where
  "shutdown a = a\<lparr>effects := effects a @ [Shutdown]\<rparr>"

definition sendGoalMessage :: "agent \<Rightarrow> agent" where
  "sendGoalMessage a = sendMessage a \<lparr>type' = Goal, info = None, value' = goal a\<rparr>"

definition loopMessage :: "agent \<Rightarrow> Message" where
  "loopMessage a =
     \<lparr>type' = System, info = None,
      value' = (if truthy_string (customApiKey (modelSettings a))
        then ''This agent has maxed out on loops. To save your wallet, this agent is shutting down. You can configure the number of loops in the advanced settings.''
        else ''We're sorry, because this is a demo, we cannot have our agents running for too long. Note, if you desire longer runs, please provide your own API key in Settings. Shutting down.'')\<rparr>"

definition sendLoopMessage :: "agent \<Rightarrow> agent" where
  "sendLoopMessage a = sendMessage a (loopMessage a)"

definition manualShutdownMessage :: Message where
  "manualShutdownMessage =
     \<lparr>type' = System, info = None, value' = ''The agent has been manually shutdown.''\<rparr>"

definition sendManualShutdownMessage :: "agent \<Rightarrow> agent" where
  "sendManualShutdownMessage a = sendMessage a manualShutdownMessage"

definition completedMessage :: Message where
  "completedMessage =
     \<lparr>type' = System, info = None, value' = ''All tasks completed. Shutting down.''\<rparr>"

definition sendCompletedMessage :: "agent \<Rightarrow> agent" where
  "sendCompletedMessage a = sendMessage a completedMessage"

definition thinkingMessage :: Message where
  "thinkingMessage = \<lparr>type' = Thinking, info = None, value' = []\<rparr>"

definition sendThinkingMessage :: "agent \<Rightarrow> agent" where
  "sendThinkingMessage a = sendMessage a thinkingMessage"

definition taskMessage :: "string \<Rightarrow> Message" where
  "taskMessage t = \<lparr>type' = Task, info = None, value' = t\<rparr>"

definition sendTaskMessage :: "agent \<Rightarrow> string \<Rightarrow> agent" where
  "sendTaskMessage a t = sendMessage a (taskMessage t)"

definition errorMessage :: "string \<Rightarrow> Message" where
  "errorMessage e = \<lparr>type' = System, info = None, value' = e\<rparr>"

definition sendErrorMessage :: "agent \<Rightarrow> string \<Rightarrow> agent" where
  "sendErrorMessage a e = sendMessage a (errorMessage e)"

definition executionMessage :: "string \<Rightarrow> string \<Rightarrow> Message" where
  "executionMessage t execution =
     \<lparr>type' = Action, info = Some (''Executing '' @ [CHR 0x22] @ t @ [CHR 0x22]),
      value' = execution\<rparr>"

definition sendExecutionMessage :: "agent \<Rightarrow> string \<Rightarrow> string \<Rightarrow> agent" where
  "sendExecutionMessage a t execution = sendMessage a (executionMessage t execution)"

text \<open>The notice of \<open>post\<close>; its last four bytes are the UTF-8 encoding of U+1F605.\<close>

definition rateLimitNotice :: string where
  "rateLimitNotice =
     ''Rate limit exceeded. Please slow down. '' @ [CHR 0xF0, CHR 0x9F, CHR 0x98, CHR 0x85]"

definition getMessageFromError :: "failure \<Rightarrow> string" where
  "getMessageFromError e =
     (case e of
        AxiosError st \<Rightarrow>
          (if st = Some 404
           then ''ERROR your API key does not have GPT-4 access. You must first join OpenAI's wait-list. (This is different from ChatGPT Plus)''
           else if st = Some 429
           then ''ERROR using your OpenAI API key. You've exceeded your current quota, please check your plan and billing details.''
           else ''ERROR accessing OpenAI APIs. Please check your API key or try again later'')
      | OtherError \<Rightarrow>
          ''ERROR retrieving initial tasks array. Retry, make your goal more clear, or revise your goal such that it is within our model's policies to run. Shutting Down.'')"

section \<open>Cancellation and suspension\<close>

definition stopAgent :: "agent \<Rightarrow> agent" where
  "stopAgent a = shutdown ((sendManualShutdownMessage a)\<lparr>isRunning := False\<rparr>)"

text \<open>
  One \<open>await\<close> on a timer or on the network: the controller is suspended, the page makes
  its \<open>stopAgent\<close> calls, the controller resumes.
\<close>

definition suspend :: "env \<Rightarrow> agent \<Rightarrow> agent" where
  "suspend ev a = (stopAgent ^^ stopCalls ev (awaits a)) (a\<lparr>awaits := Suc (awaits a)\<rparr>)"

section \<open>Loop cap and dispatch\<close>

text \<open>
  \<open>customMaxLoops || DEFAULT_MAX_LOOPS_CUSTOM_API_KEY\<close>: the override is taken when it is
  truthy, that is, present and not \<open>0\<close>.
\<close>

definition maxLoops :: "env \<Rightarrow> agent \<Rightarrow> int" where
  "maxLoops ev a =
     (let defaultLoops =
            (if truthy_string (case session a of None \<Rightarrow> None
                               | Some s \<Rightarrow> subscriptionId (user s))
             then DEFAULT_MAX_LOOPS_PAID ev else DEFAULT_MAX_LOOPS_FREE ev)
      in if truthy_string (customApiKey (modelSettings a))
         then (case customMaxLoops (modelSettings a) of
                 None \<Rightarrow> DEFAULT_MAX_LOOPS_CUSTOM_API_KEY ev
               | Some k \<Rightarrow> if k \<noteq> 0 then k else DEFAULT_MAX_LOOPS_CUSTOM_API_KEY ev)
         else defaultLoops)"

definition shouldRunClientSide :: "agent \<Rightarrow> bool" where
  "shouldRunClientSide a = truthy_string (customApiKey (modelSettings a))"

text \<open>
  \<open>post\<close>: the request is issued, the controller is suspended until the answer arrives.
  A function that may throw returns the state it leaves behind and either the thrown
  failure (\<open>Inl\<close>) or its value (\<open>Inr\<close>).
\<close>

definition post :: "env \<Rightarrow> agent \<Rightarrow> string \<Rightarrow> RequestBody \<Rightarrow> agent \<times> (failure + string)" where
  "post ev a url data =
     (let response = axios_post ev (awaits a) url data;
          a1 = suspend ev (a\<lparr>effects := effects a @ [Executed (case data of RequestBody _ _ t \<Rightarrow> t)]\<rparr>)
      in case response of
           Inr res \<Rightarrow> (a1, Inr res)
         | Inl e \<Rightarrow>
             (let a2 = shutdown a1;
                  a3 = (if e = AxiosError (Some 429)
                        then sendErrorMessage a2 rateLimitNotice else a2)
              in (a3, Inl e)))"

definition executeTask :: "env \<Rightarrow> agent \<Rightarrow> string \<Rightarrow> agent \<times> (failure + string)" where
  "executeTask ev a t =
     (if shouldRunClientSide a
      then (suspend ev (a\<lparr>effects := effects a @ [Executed t]\<rparr>),
            executeTaskAgent ev (awaits a) (modelSettings a) (goal a) t)
      else post ev a ''/api/agent/execute'' (RequestBody (modelSettings a) (goal a) t))"

section \<open>What each operation leaves unchanged\<close>

lemma sendMessage_frame [simp]:
  "name (sendMessage a m) = name a"
  "goal (sendMessage a m) = goal a"
  "tasks (sendMessage a m) = tasks a"
  "completedTasks (sendMessage a m) = completedTasks a"
  "runningTasks (sendMessage a m) = runningTasks a"
  "modelSettings (sendMessage a m) = modelSettings a"
  "isRunning (sendMessage a m) = isRunning a"
  "numLoops (sendMessage a m) = numLoops a"
  "session (sendMessage a m) = session a"
  "awaits (sendMessage a m) = awaits a"
  by (simp_all add: sendMessage_def)

lemma sendMessage_effects:
  "effects (sendMessage a m) = effects a @ (if isRunning a then [Rendered m] else [])"
  by (simp add: sendMessage_def)

lemma shutdown_frame [simp]:
  "name (shutdown a) = name a"
  "goal (shutdown a) = goal a"
  "tasks (shutdown a) = tasks a"
  "completedTasks (shutdown a) = completedTasks a"
  "runningTasks (shutdown a) = runningTasks a"
  "modelSettings (shutdown a) = modelSettings a"
  "isRunning (shutdown a) = isRunning a"
  "numLoops (shutdown a) = numLoops a"
  "session (shutdown a) = session a"
  "awaits (shutdown a) = awaits a"
  "effects (shutdown a) = effects a @ [Shutdown]"
  by (simp_all add: shutdown_def)

lemma stopAgent_frame [simp]:
  "name (stopAgent a) = name a"
  "goal (stopAgent a) = goal a"
  "tasks (stopAgent a) = tasks a"
  "completedTasks (stopAgent a) = completedTasks a"
  "runningTasks (stopAgent a) = runningTasks a"
  "modelSettings (stopAgent a) = modelSettings a"
  "isRunning (stopAgent a) = False"
  "numLoops (stopAgent a) = numLoops a"
  "session (stopAgent a) = session a"
  "awaits (stopAgent a) = awaits a"
  by (simp_all add: stopAgent_def sendManualShutdownMessage_def)

lemma stopAgent_effects:
  "effects (stopAgent a) =
     effects a @ (if isRunning a then [Rendered manualShutdownMessage] else []) @ [Shutdown]"
  by (simp add: stopAgent_def sendManualShutdownMessage_def sendMessage_effects)

lemma stopAgent_funpow_frame [simp]:
  "name ((stopAgent ^^ n) a) = name a"
  "goal ((stopAgent ^^ n) a) = goal a"
  "tasks ((stopAgent ^^ n) a) = tasks a"
  "completedTasks ((stopAgent ^^ n) a) = completedTasks a"
  "runningTasks ((stopAgent ^^ n) a) = runningTasks a"
  "modelSettings ((stopAgent ^^ n) a) = modelSettings a"
  "numLoops ((stopAgent ^^ n) a) = numLoops a"
  "session ((stopAgent ^^ n) a) = session a"
  "awaits ((stopAgent ^^ n) a) = awaits a"
  by (induction n) simp_all

lemma stopAgent_funpow_isRunning [simp]:
  "isRunning ((stopAgent ^^ n) a) = (isRunning a \<and> n = 0)"
  by (induction n) simp_all

lemma stopAgent_funpow_effects:
  "effects ((stopAgent ^^ n) a) =
     effects a @ (if isRunning a \<and> 0 < n then [Rendered manualShutdownMessage] else [])
               @ replicate n Shutdown"
proof (induction n)
  case 0
  show ?case by simp
next
  case (Suc n)
  have "effects ((stopAgent ^^ Suc n) a) =
          effects ((stopAgent ^^ n) a)
          @ (if isRunning a \<and> n = 0 then [Rendered manualShutdownMessage] else []) @ [Shutdown]"
    by (simp add: stopAgent_effects)
  then show ?case
    by (simp add: Suc replicate_append_same)
qed

lemma suspend_frame [simp]:
  "name (suspend ev a) = name a"
  "goal (suspend ev a) = goal a"
  "tasks (suspend ev a) = tasks a"
  "completedTasks (suspend ev a) = completedTasks a"
  "runningTasks (suspend ev a) = runningTasks a"
  "modelSettings (suspend ev a) = modelSettings a"
  "numLoops (suspend ev a) = numLoops a"
  "session (suspend ev a) = session a"
  "awaits (suspend ev a) = Suc (awaits a)"
  "isRunning (suspend ev a) = (isRunning a \<and> stopCalls ev (awaits a) = 0)"
  by (simp_all add: suspend_def)

lemma suspend_effects_raw:
  "effects (suspend ev a) =
     effects a
     @ (if isRunning a \<and> 0 < stopCalls ev (awaits a) then [Rendered manualShutdownMessage] else [])
     @ replicate (stopCalls ev (awaits a)) Shutdown"
  by (simp add: suspend_def stopAgent_funpow_effects)

lemma post_frame [simp]:
  "name (fst (post ev a url d)) = name a"
  "goal (fst (post ev a url d)) = goal a"
  "tasks (fst (post ev a url d)) = tasks a"
  "completedTasks (fst (post ev a url d)) = completedTasks a"
  "runningTasks (fst (post ev a url d)) = runningTasks a"
  "modelSettings (fst (post ev a url d)) = modelSettings a"
  "numLoops (fst (post ev a url d)) = numLoops a"
  "session (fst (post ev a url d)) = session a"
  "awaits (fst (post ev a url d)) = Suc (awaits a)"
  "isRunning (fst (post ev a url d)) = (isRunning a \<and> stopCalls ev (awaits a) = 0)"
  by (simp_all add: post_def Let_def sendErrorMessage_def split: sum.split)

lemma executeTask_frame [simp]:
  "name (fst (executeTask ev a t)) = name a"
  "goal (fst (executeTask ev a t)) = goal a"
  "tasks (fst (executeTask ev a t)) = tasks a"
  "completedTasks (fst (executeTask ev a t)) = completedTasks a"
  "runningTasks (fst (executeTask ev a t)) = runningTasks a"
  "modelSettings (fst (executeTask ev a t)) = modelSettings a"
  "numLoops (fst (executeTask ev a t)) = numLoops a"
  "session (fst (executeTask ev a t)) = session a"
  "awaits (fst (executeTask ev a t)) = Suc (awaits a)"
  "isRunning (fst (executeTask ev a t)) = (isRunning a \<and> stopCalls ev (awaits a) = 0)"
  by (simp_all add: executeTask_def)

section \<open>The run\<close>

text \<open>
  One tick of \<open>loop\<close> and its recursion. At lines 96 and 97 the queue is not empty (it was
  not at line 77 and only \<open>loop\<close> changes it); the empty case of the two \<open>case\<close>
  expressions stands for \<open>this.tasks[0] || ""\<close> and for the \<open>undefined\<close> of \<open>shift\<close>.
\<close>

function loop :: "env \<Rightarrow> agent \<Rightarrow> agent \<times> (failure + unit)" where
  "loop ev a =
     (if \<not> isRunning a then (a, Inr ())
      else if tasks a = [] then (shutdown (sendCompletedMessage a), Inr ())
      else
        (let a1 = a\<lparr>numLoops := numLoops a + 1\<rparr> in
         if numLoops a1 > maxLoops ev a1 then (shutdown (sendLoopMessage a1), Inr ())
         else
           (let a2 = suspend ev a1;
                a3 = a2\<lparr>completedTasks :=
                          completedTasks a2 @ [case tasks a2 of [] \<Rightarrow> [] | t # _ \<Rightarrow> t]\<rparr>;
                currentTask = (case tasks a3 of [] \<Rightarrow> [] | t # _ \<Rightarrow> t);
                a4 = a3\<lparr>tasks := tl (tasks a3)\<rparr>;
                a5 = sendThinkingMessage a4
            in case executeTask ev a5 currentTask of
                 (a6, Inl e) \<Rightarrow> (a6, Inl e)
               | (a6, Inr result) \<Rightarrow>
                   (let a7 = sendExecutionMessage a6 currentTask result;
                        a8 = a7\<lparr>runningTasks := runningTasks a7 @ [currentTask]\<rparr>
                    in loop ev (suspend ev a8)))))"
  by pat_completeness auto

termination loop
proof (relation "measure (\<lambda>(ev, a). length (tasks a))", goal_cases)
  case 1
  show ?case by simp
next
  case (2 ev a a1 a2 a3 currentTask a4 a5 a6 y result a7 a8)
  have "tasks a6 = tasks (fst (executeTask ev a5 currentTask))"
    using 2 by (metis fst_conv)
  then have "tasks a8 = tl (tasks a)"
    using 2 by (simp add: sendExecutionMessage_def sendThinkingMessage_def)
  then show ?case
    using 2 by simp
qed

declare loop.simps [simp del]

text \<open>
  \<open>run\<close>. The body of its \<open>try\<close> block assigns the task list and announces every task
  after a pacing delay; \<open>announce\<close> is the \<open>for\<close> loop. The \<open>catch\<close> block is the
  \<open>Inl\<close> branch of \<open>run\<close>. With a \<open>renderMessage\<close> that returns, nothing in the \<open>try\<close>
  block throws; \<open>run_sink\<close> below is \<open>run\<close> with a \<open>renderMessage\<close> that may throw.
\<close>

definition initialTasks :: "string list" where
  "initialTasks =
     [''Introduction'', ''Concept'', ''Problem it aims to solve'', ''Target audience'',
      ''Unique selling point'', ''Competitors'', ''Market fit'',
      ''Specific details to consider'']"

fun announce :: "env \<Rightarrow> string list \<Rightarrow> agent \<Rightarrow> agent \<times> (failure + unit)" where
  "announce ev [] a = (a, Inr ())"
| "announce ev (t # ts) a = announce ev ts (sendTaskMessage (suspend ev a) t)"

definition getTasks :: "env \<Rightarrow> agent \<Rightarrow> agent \<times> (failure + unit)" where
  "getTasks ev a = (let a1 = a\<lparr>tasks := initialTasks\<rparr> in announce ev (tasks a1) a1)"

definition run :: "env \<Rightarrow> agent \<Rightarrow> agent \<times> (failure + unit)" where
  "run ev a =
     (let a1 = sendThinkingMessage (sendGoalMessage a)
      in case getTasks ev a1 of
           (a2, Inl e) \<Rightarrow> (shutdown (sendErrorMessage a2 (getMessageFromError e)), Inr ())
         | (a2, Inr _) \<Rightarrow> loop ev a2)"

section \<open>Observations on the effects\<close>

definition renderedOf :: "effect list \<Rightarrow> Message list" where
  "renderedOf es = concat (map (\<lambda>e. case e of Rendered m \<Rightarrow> [m] | _ \<Rightarrow> []) es)"

definition executedOf :: "effect list \<Rightarrow> string list" where
  "executedOf es = concat (map (\<lambda>e. case e of Executed t \<Rightarrow> [t] | _ \<Rightarrow> []) es)"

definition rendered :: "agent \<Rightarrow> Message list" where
  "rendered a = renderedOf (effects a)"

definition actions :: "agent \<Rightarrow> Message list" where
  "actions a = filter (\<lambda>m. type' m = Action) (rendered a)"

definition systems :: "agent \<Rightarrow> Message list" where
  "systems a = filter (\<lambda>m. type' m = System) (rendered a)"

definition shutdowns :: "agent \<Rightarrow> nat" where
  "shutdowns a = count_list (effects a) Shutdown"

definition executions :: "agent \<Rightarrow> string list" where
  "executions a = executedOf (effects a)"

text \<open>What follows the manual-shutdown message in a record of effects.\<close>

definition afterStop :: "effect list \<Rightarrow> effect list" where
  "afterStop es = tl (dropWhile (\<lambda>e. e \<noteq> Rendered manualShutdownMessage) es)"

text \<open>
  The two halves of a tick that performs work: the state in which the task-execution
  capability is invoked (lines 83 to 98), and the state in which the next tick starts
  (lines 101 to 104), given the state \<open>a\<close> in which the execution returned \<open>r\<close>.
\<close>

definition beforeExecution :: "env \<Rightarrow> agent \<Rightarrow> agent" where
  "beforeExecution ev a =
     sendThinkingMessage
       ((suspend ev (a\<lparr>numLoops := numLoops a + 1\<rparr>))
          \<lparr>completedTasks := completedTasks a @ [case tasks a of [] \<Rightarrow> [] | t # _ \<Rightarrow> t],
           tasks := tl (tasks a)\<rparr>)"

definition afterExecution :: "env \<Rightarrow> agent \<Rightarrow> string \<Rightarrow> string \<Rightarrow> agent" where
  "afterExecution ev a t r =
     suspend ev ((sendExecutionMessage a t r)\<lparr>runningTasks := runningTasks a @ [t]\<rparr>)"

text \<open>The effects of one suspension, and the answer that an execution receives.\<close>

definition stopEffects :: "env \<Rightarrow> agent \<Rightarrow> effect list" where
  "stopEffects ev a =
     (if isRunning a \<and> 0 < stopCalls ev (awaits a) then [Rendered manualShutdownMessage] else [])
     @ replicate (stopCalls ev (awaits a)) Shutdown"

definition answer :: "env \<Rightarrow> agent \<Rightarrow> string \<Rightarrow> failure + string" where
  "answer ev a t =
     (if shouldRunClientSide a then executeTaskAgent ev (awaits a) (modelSettings a) (goal a) t
      else axios_post ev (awaits a) ''/api/agent/execute'' (RequestBody (modelSettings a) (goal a) t))"

text \<open>
  In a run that nobody stops and in which no execution fails: the number of tasks that
  the loop executes from a state, and the message it ends with.
\<close>

definition executed_count :: "env \<Rightarrow> agent \<Rightarrow> nat" where
  "executed_count ev a = min (length (tasks a)) (nat (maxLoops ev a - numLoops a))"

definition lastMessage :: "env \<Rightarrow> agent \<Rightarrow> Message" where
  "lastMessage ev a =
     (if int (length (tasks a)) \<le> maxLoops ev a - numLoops a then completedMessage
      else loopMessage a)"

text \<open>The state in which \<open>run\<close> enters the loop.\<close>

definition loopEntry :: "env \<Rightarrow> agent \<Rightarrow> agent" where
  "loopEntry ev a = fst (getTasks ev (sendThinkingMessage (sendGoalMessage a)))"

text \<open>
  Invariants of a run. \<open>stoppedOnce n\<close>: the manual-shutdown message is in the record of
  effects exactly when \<open>isRunning\<close> is false, nothing was rendered after it, and at most \<open>n\<close>
  executions were started after it. \<open>synced\<close>: a running controller has not been stopped at
  any of the suspensions it has passed. \<open>onlyManual\<close>: no action message was delivered, and
  the only system message delivered is the manual-shutdown message of a stopped controller.
\<close>

definition stoppedOnce :: "nat \<Rightarrow> agent \<Rightarrow> bool" where
  "stoppedOnce n a =
     (if isRunning a then Rendered manualShutdownMessage \<notin> set (effects a)
      else Rendered manualShutdownMessage \<in> set (effects a) \<and>
           renderedOf (afterStop (effects a)) = [] \<and>
           length (executedOf (afterStop (effects a))) \<le> n)"

definition synced :: "env \<Rightarrow> agent \<Rightarrow> bool" where
  "synced ev a = (isRunning a \<longrightarrow> (\<forall>j<awaits a. stopCalls ev j = 0))"

definition onlyManual :: "agent \<Rightarrow> bool" where
  "onlyManual a =
     (actions a = [] \<and> systems a = (if isRunning a then [] else [manualShutdownMessage]))"

text \<open>Example inputs, used to instantiate the theorems below.\<close>

definition example_env :: env where
  "example_env =
     \<lparr>DEFAULT_MAX_LOOPS_CUSTOM_API_KEY = 50, DEFAULT_MAX_LOOPS_FREE = 4,
      DEFAULT_MAX_LOOPS_PAID = 16,
      executeTaskAgent = (\<lambda>n ms g t. Inr (''local: '' @ t)),
      axios_post = (\<lambda>n url d. Inr ''remote''),
      stopCalls = (\<lambda>n. 0)\<rparr>"

definition no_key :: ModelSettings where
  "no_key = \<lparr>customApiKey = None, customModelName = ''gpt-3.5-turbo'', customMaxLoops = None\<rparr>"

definition own_key :: "int option \<Rightarrow> ModelSettings" where
  "own_key k =
     \<lparr>customApiKey = Some ''sk-1'', customModelName = ''gpt-3.5-turbo'', customMaxLoops = k\<rparr>"

definition paid_session :: Session where
  "paid_session = \<lparr>user = \<lparr>subscriptionId = Some ''sub_1''\<rparr>\<rparr>"

text \<open>Every remote request fails with the given status; one \<open>stopAgent\<close> call at suspension \<open>k\<close>.\<close>

definition failing_env :: "nat \<Rightarrow> env" where
  "failing_env st = example_env\<lparr>axios_post := (\<lambda>n url d. Inl (AxiosError (Some st)))\<rparr>"

definition stop_env :: "nat \<Rightarrow> env" where
  "stop_env k = example_env\<lparr>stopCalls := (\<lambda>n. if n = k then 1 else 0)\<rparr>"

section \<open>Basic facts\<close>

lemma renderedOf_simps [simp]:
  "renderedOf [] = []"
  "renderedOf (Rendered m # es) = m # renderedOf es"
  "renderedOf (Shutdown # es) = renderedOf es"
  "renderedOf (Executed t # es) = renderedOf es"
  "renderedOf (es @ fs) = renderedOf es @ renderedOf fs"
  "renderedOf (replicate n Shutdown) = []"
  by (simp_all add: renderedOf_def)

lemma executedOf_simps [simp]:
  "executedOf [] = []"
  "executedOf (Rendered m # es) = executedOf es"
  "executedOf (Shutdown # es) = executedOf es"
  "executedOf (Executed t # es) = t # executedOf es"
  "executedOf (es @ fs) = executedOf es @ executedOf fs"
  "executedOf (replicate n Shutdown) = []"
  by (simp_all add: executedOf_def)

lemma maxLoops_cong:
  "modelSettings a = modelSettings b \<Longrightarrow> session a = session b \<Longrightarrow> maxLoops ev a = maxLoops ev b"
  by (simp add: maxLoops_def)

lemma loop_tick:
  "loop ev a =
     (if \<not> isRunning a then (a, Inr ())
      else if tasks a = [] then (shutdown (sendCompletedMessage a), Inr ())
      else if maxLoops ev a < numLoops a + 1
        then (shutdown (sendLoopMessage (a\<lparr>numLoops := numLoops a + 1\<rparr>)), Inr ())
      else (case executeTask ev (beforeExecution ev a) (hd (tasks a)) of
              (a6, Inl e) \<Rightarrow> (a6, Inl e)
            | (a6, Inr r) \<Rightarrow> loop ev (afterExecution ev a6 (hd (tasks a)) r)))"
proof -
  have cap: "maxLoops ev (a\<lparr>numLoops := numLoops a + 1\<rparr>) = maxLoops ev a"
    by (rule maxLoops_cong) simp_all
  have hd: "tasks a \<noteq> [] \<Longrightarrow> (case tasks a of [] \<Rightarrow> [] | t # _ \<Rightarrow> t) = hd (tasks a)"
    by (cases "tasks a") simp_all
  show ?thesis
    by (subst loop.simps)
       (simp add: Let_def cap hd beforeExecution_def afterExecution_def sendThinkingMessage_def
          sendExecutionMessage_def split: prod.split sum.split)
qed

lemma suspend_effects: "effects (suspend ev a) = effects a @ stopEffects ev a"
  by (simp add: suspend_effects_raw stopEffects_def)

lemma stopEffects_cong:
  "isRunning a = isRunning b \<Longrightarrow> awaits a = awaits b \<Longrightarrow> stopEffects ev a = stopEffects ev b"
  by (simp add: stopEffects_def)

lemma stopEffects_quiet: "stopCalls ev (awaits a) = 0 \<Longrightarrow> stopEffects ev a = []"
  by (simp add: stopEffects_def)

lemma post_snd [simp]: "snd (post ev a url d) = axios_post ev (awaits a) url d"
  by (simp add: post_def Let_def split: sum.split)

lemma executeTask_snd [simp]: "snd (executeTask ev a t) = answer ev a t"
  by (simp add: executeTask_def answer_def)

lemma executeTask_effects:
  "effects (fst (executeTask ev a t)) =
     effects a @ [Executed t] @ stopEffects ev a
     @ (if shouldRunClientSide a then []
        else case answer ev a t of
               Inr r \<Rightarrow> []
             | Inl e \<Rightarrow> Shutdown #
                 (if e = AxiosError (Some 429) \<and> isRunning a \<and> stopCalls ev (awaits a) = 0
                  then [Rendered (errorMessage rateLimitNotice)] else []))"
  by (simp add: executeTask_def answer_def post_def Let_def suspend_effects sendErrorMessage_def
      sendMessage_effects stopEffects_def split: sum.split)

lemma beforeExecution_frame [simp]:
  "name (beforeExecution ev a) = name a"
  "goal (beforeExecution ev a) = goal a"
  "tasks (beforeExecution ev a) = tl (tasks a)"
  "completedTasks (beforeExecution ev a) =
     completedTasks a @ [case tasks a of [] \<Rightarrow> [] | t # _ \<Rightarrow> t]"
  "runningTasks (beforeExecution ev a) = runningTasks a"
  "modelSettings (beforeExecution ev a) = modelSettings a"
  "numLoops (beforeExecution ev a) = numLoops a + 1"
  "session (beforeExecution ev a) = session a"
  "awaits (beforeExecution ev a) = Suc (awaits a)"
  "isRunning (beforeExecution ev a) = (isRunning a \<and> stopCalls ev (awaits a) = 0)"
  by (simp_all add: beforeExecution_def sendThinkingMessage_def)

lemma beforeExecution_effects:
  "effects (beforeExecution ev a) =
     effects a @ stopEffects ev a
     @ (if isRunning a \<and> stopCalls ev (awaits a) = 0 then [Rendered thinkingMessage] else [])"
  by (simp add: beforeExecution_def sendThinkingMessage_def sendMessage_effects suspend_effects
      stopEffects_def)

lemma afterExecution_frame [simp]:
  "name (afterExecution ev a t r) = name a"
  "goal (afterExecution ev a t r) = goal a"
  "tasks (afterExecution ev a t r) = tasks a"
  "completedTasks (afterExecution ev a t r) = completedTasks a"
  "runningTasks (afterExecution ev a t r) = runningTasks a @ [t]"
  "modelSettings (afterExecution ev a t r) = modelSettings a"
  "numLoops (afterExecution ev a t r) = numLoops a"
  "session (afterExecution ev a t r) = session a"
  "awaits (afterExecution ev a t r) = Suc (awaits a)"
  "isRunning (afterExecution ev a t r) = (isRunning a \<and> stopCalls ev (awaits a) = 0)"
  by (simp_all add: afterExecution_def sendExecutionMessage_def)

lemma afterExecution_effects:
  "effects (afterExecution ev a t r) =
     effects a @ (if isRunning a then [Rendered (executionMessage t r)] else [])
     @ stopEffects ev a"
  by (simp add: afterExecution_def sendExecutionMessage_def sendMessage_effects suspend_effects
      stopEffects_def)

lemma shouldRunClientSide_cong:
  "modelSettings a = modelSettings b \<Longrightarrow> shouldRunClientSide a = shouldRunClientSide b"
  by (simp add: shouldRunClientSide_def)

lemma reliable_answer:
  assumes "\<forall>n ms g t. \<not> isl (executeTaskAgent ev n ms g t)"
    and "\<forall>n u d. \<not> isl (axios_post ev n u d)"
  shows "\<exists>r. answer ev a t = Inr r"
proof -
  have "\<not> isl (answer ev a t)"
    using assms by (simp add: answer_def)
  then show ?thesis
    by (cases "answer ev a t") simp_all
qed

lemma quiet_tick:
  assumes quiet: "\<forall>n. stopCalls ev n = 0"
    and rel: "\<forall>n ms g t. \<not> isl (executeTaskAgent ev n ms g t)" "\<forall>n u d. \<not> isl (axios_post ev n u d)"
    and run: "isRunning a" and ts: "tasks a = t # ts" and cap: "numLoops a < maxLoops ev a"
  obtains a' r where "loop ev a = loop ev a'" "isRunning a'" "tasks a' = ts"
    "numLoops a' = numLoops a + 1" "modelSettings a' = modelSettings a" "session a' = session a"
    "completedTasks a' = completedTasks a @ [t]" "runningTasks a' = runningTasks a @ [t]"
    "effects a' = effects a @ [Rendered thinkingMessage, Executed t, Rendered (executionMessage t r)]"
proof -
  define b where "b = beforeExecution ev a"
  obtain r where r: "answer ev b t = Inr r"
    using reliable_answer [OF rel] by blast
  define a6 where "a6 = fst (executeTask ev b t)"
  have ex: "executeTask ev b t = (a6, Inr r)"
    using r by (simp add: a6_def prod_eq_iff)
  define a' where "a' = afterExecution ev a6 t r"
  have step: "loop ev a = loop ev a'"
    using run ts cap ex by (subst loop_tick) (simp add: b_def a'_def)
  have eff: "effects a' = effects a @ [Rendered thinkingMessage, Executed t, Rendered (executionMessage t r)]"
    using run quiet r
    by (simp add: a'_def a6_def b_def afterExecution_effects executeTask_effects
        beforeExecution_effects stopEffects_quiet)
  show thesis
    by (rule that [OF step _ _ _ _ _ _ _ eff])
       (use run quiet ts in \<open>simp_all add: a'_def a6_def b_def\<close>)
qed

lemma loopMessage_cong: "modelSettings a = modelSettings b \<Longrightarrow> loopMessage a = loopMessage b"
  by (simp add: loopMessage_def)

lemma quiet_loop:
  assumes quiet: "\<forall>n. stopCalls ev n = 0"
    and rel: "\<forall>n ms g t. \<not> isl (executeTaskAgent ev n ms g t)" "\<forall>n u d. \<not> isl (axios_post ev n u d)"
    and run: "isRunning a" and cap: "numLoops a \<le> maxLoops ev a"
  shows "snd (loop ev a) = Inr () \<and>
         completedTasks (fst (loop ev a)) = completedTasks a @ take (executed_count ev a) (tasks a) \<and>
         runningTasks (fst (loop ev a)) = runningTasks a @ take (executed_count ev a) (tasks a) \<and>
         tasks (fst (loop ev a)) = drop (executed_count ev a) (tasks a) \<and>
         (\<exists>es. effects (fst (loop ev a)) = effects a @ es @ [Rendered (lastMessage ev a), Shutdown] \<and>
               executedOf es = take (executed_count ev a) (tasks a) \<and>
               map info (filter (\<lambda>m. type' m = Action) (renderedOf es)) =
                 map (\<lambda>t. Some (''Executing '' @ [CHR 0x22] @ t @ [CHR 0x22]))
                   (take (executed_count ev a) (tasks a)) \<and>
               filter (\<lambda>m. type' m = System) (renderedOf es) = [] \<and>
               count_list es Shutdown = 0)"
  using run cap
proof (induction "tasks a" arbitrary: a)
  case Nil
  then have "loop ev a = (shutdown (sendCompletedMessage a), Inr ())"
    by (subst loop_tick) simp
  with Nil show ?case
    by (simp add: executed_count_def lastMessage_def sendCompletedMessage_def sendMessage_effects)
next
  case (Cons t ts)
  show ?case
  proof (cases "numLoops a < maxLoops ev a")
    case False
    with Cons.prems have eq: "maxLoops ev a = numLoops a" by simp
    have "loop ev a = (shutdown (sendLoopMessage (a\<lparr>numLoops := numLoops a + 1\<rparr>)), Inr ())"
      using Cons.prems Cons.hyps(2) [symmetric] eq by (subst loop_tick) simp
    moreover have "loopMessage (a\<lparr>numLoops := numLoops a + 1\<rparr>) = loopMessage a"
      by (rule loopMessage_cong) simp
    ultimately show ?thesis
      using Cons.prems Cons.hyps(2) [symmetric] eq
      by (simp add: executed_count_def lastMessage_def sendLoopMessage_def sendMessage_effects)
  next
    case True
    from quiet_tick [OF quiet rel Cons.prems(1) Cons.hyps(2) [symmetric] True]
    obtain a' r where a': "loop ev a = loop ev a'" "isRunning a'" "tasks a' = ts"
      "numLoops a' = numLoops a + 1" "modelSettings a' = modelSettings a" "session a' = session a"
      "completedTasks a' = completedTasks a @ [t]" "runningTasks a' = runningTasks a @ [t]"
      "effects a' = effects a @ [Rendered thinkingMessage, Executed t, Rendered (executionMessage t r)]"
      by blast
    have ml: "maxLoops ev a' = maxLoops ev a"
      using a' by (intro maxLoops_cong) simp_all
    have cnt: "executed_count ev a = Suc (executed_count ev a')"
      using True a' ml Cons.hyps(2) [symmetric] by (simp add: executed_count_def)
    have lm: "lastMessage ev a' = lastMessage ev a"
      using a' ml Cons.hyps(2) [symmetric] loopMessage_cong [of a' a]
      by (simp add: lastMessage_def)
    have IH: "snd (loop ev a') = Inr () \<and>
         completedTasks (fst (loop ev a')) = completedTasks a' @ take (executed_count ev a') (tasks a') \<and>
         runningTasks (fst (loop ev a')) = runningTasks a' @ take (executed_count ev a') (tasks a') \<and>
         tasks (fst (loop ev a')) = drop (executed_count ev a') (tasks a') \<and>
         (\<exists>es. effects (fst (loop ev a')) = effects a' @ es @ [Rendered (lastMessage ev a'), Shutdown] \<and>
               executedOf es = take (executed_count ev a') (tasks a') \<and>
               map info (filter (\<lambda>m. type' m = Action) (renderedOf es)) =
                 map (\<lambda>t. Some (''Executing '' @ [CHR 0x22] @ t @ [CHR 0x22]))
                   (take (executed_count ev a') (tasks a')) \<and>
               filter (\<lambda>m. type' m = System) (renderedOf es) = [] \<and>
               count_list es Shutdown = 0)"
      using Cons.hyps(1) [of a'] a' True ml by simp
    then obtain es where es:
      "effects (fst (loop ev a')) = effects a' @ es @ [Rendered (lastMessage ev a'), Shutdown]"
      "executedOf es = take (executed_count ev a') (tasks a')"
      "map info (filter (\<lambda>m. type' m = Action) (renderedOf es)) =
         map (\<lambda>t. Some (''Executing '' @ [CHR 0x22] @ t @ [CHR 0x22]))
           (take (executed_count ev a') (tasks a'))"
      "filter (\<lambda>m. type' m = System) (renderedOf es) = []"
      "count_list es Shutdown = 0"
      by blast
    let ?es = "[Rendered thinkingMessage, Executed t, Rendered (executionMessage t r)] @ es"
    have "effects (fst (loop ev a)) = effects a @ ?es @ [Rendered (lastMessage ev a), Shutdown]"
      using es(1) a' lm by simp
    moreover have "executedOf ?es = take (executed_count ev a) (tasks a)"
      using es(2) a' cnt Cons.hyps(2) [symmetric] by simp
    moreover have "map info (filter (\<lambda>m. type' m = Action) (renderedOf ?es)) =
         map (\<lambda>t. Some (''Executing '' @ [CHR 0x22] @ t @ [CHR 0x22]))
           (take (executed_count ev a) (tasks a))"
      using es(3) a' cnt Cons.hyps(2) [symmetric]
      by (simp add: thinkingMessage_def executionMessage_def)
    moreover have "filter (\<lambda>m. type' m = System) (renderedOf ?es) = []"
      using es(4) by (simp add: thinkingMessage_def executionMessage_def)
    moreover have "count_list ?es Shutdown = 0"
      using es(5) by simp
    ultimately have ex: "\<exists>es. effects (fst (loop ev a)) = effects a @ es @ [Rendered (lastMessage ev a), Shutdown] \<and>
               executedOf es = take (executed_count ev a) (tasks a) \<and>
               map info (filter (\<lambda>m. type' m = Action) (renderedOf es)) =
                 map (\<lambda>t. Some (''Executing '' @ [CHR 0x22] @ t @ [CHR 0x22]))
                   (take (executed_count ev a) (tasks a)) \<and>
               filter (\<lambda>m. type' m = System) (renderedOf es) = [] \<and>
               count_list es Shutdown = 0"
      by blast
    have rest: "snd (loop ev a) = Inr () \<and>
         completedTasks (fst (loop ev a)) = completedTasks a @ take (executed_count ev a) (tasks a) \<and>
         runningTasks (fst (loop ev a)) = runningTasks a @ take (executed_count ev a) (tasks a) \<and>
         tasks (fst (loop ev a)) = drop (executed_count ev a) (tasks a)"
      using IH a' cnt Cons.hyps(2) [symmetric] by simp
    show ?thesis
      using rest ex by blast
  qed
qed

lemma announce_frame [simp]:
  "name (fst (announce ev ts a)) = name a"
  "goal (fst (announce ev ts a)) = goal a"
  "tasks (fst (announce ev ts a)) = tasks a"
  "completedTasks (fst (announce ev ts a)) = completedTasks a"
  "runningTasks (fst (announce ev ts a)) = runningTasks a"
  "modelSettings (fst (announce ev ts a)) = modelSettings a"
  "numLoops (fst (announce ev ts a)) = numLoops a"
  "session (fst (announce ev ts a)) = session a"
  "awaits (fst (announce ev ts a)) = awaits a + length ts"
  "snd (announce ev ts a) = Inr ()"
  by (induction ts arbitrary: a; simp add: sendTaskMessage_def)+

lemma announce_quiet:
  assumes "\<forall>n. stopCalls ev n = 0"
  shows "isRunning (fst (announce ev ts a)) = isRunning a \<and>
         effects (fst (announce ev ts a)) =
           effects a @ (if isRunning a then map (\<lambda>t. Rendered (taskMessage t)) ts else [])"
  using assms
  by (induction ts arbitrary: a)
     (simp_all add: sendTaskMessage_def sendMessage_effects suspend_effects stopEffects_quiet)

lemma getTasks_frame [simp]:
  "name (fst (getTasks ev a)) = name a"
  "goal (fst (getTasks ev a)) = goal a"
  "tasks (fst (getTasks ev a)) = initialTasks"
  "completedTasks (fst (getTasks ev a)) = completedTasks a"
  "runningTasks (fst (getTasks ev a)) = runningTasks a"
  "modelSettings (fst (getTasks ev a)) = modelSettings a"
  "numLoops (fst (getTasks ev a)) = numLoops a"
  "session (fst (getTasks ev a)) = session a"
  "awaits (fst (getTasks ev a)) = awaits a + 8"
  "snd (getTasks ev a) = Inr ()"
  by (simp_all add: getTasks_def Let_def) (simp add: initialTasks_def)

lemma run_loop:
  "run ev a = loop ev (fst (getTasks ev (sendThinkingMessage (sendGoalMessage a))))"
proof -
  obtain a2 r where g: "getTasks ev (sendThinkingMessage (sendGoalMessage a)) = (a2, r)"
    by (cases "getTasks ev (sendThinkingMessage (sendGoalMessage a))")
  then have "r = Inr ()"
    using getTasks_frame(10) [of ev "sendThinkingMessage (sendGoalMessage a)"] by simp
  with g show ?thesis
    by (simp add: run_def Let_def)
qed

lemma loopEntry_frame [simp]:
  "name (loopEntry ev a) = name a"
  "goal (loopEntry ev a) = goal a"
  "tasks (loopEntry ev a) = initialTasks"
  "completedTasks (loopEntry ev a) = completedTasks a"
  "runningTasks (loopEntry ev a) = runningTasks a"
  "modelSettings (loopEntry ev a) = modelSettings a"
  "numLoops (loopEntry ev a) = numLoops a"
  "session (loopEntry ev a) = session a"
  "awaits (loopEntry ev a) = awaits a + 8"
  by (simp_all add: loopEntry_def sendThinkingMessage_def sendGoalMessage_def)

lemma loopEntry_quiet:
  assumes "\<forall>n. stopCalls ev n = 0" and "isRunning a"
  shows "isRunning (loopEntry ev a)"
    and "effects (loopEntry ev a) =
           effects a @ [Rendered \<lparr>type' = Goal, info = None, value' = goal a\<rparr>,
                        Rendered thinkingMessage]
           @ map (\<lambda>t. Rendered (taskMessage t)) initialTasks"
  using assms announce_quiet [OF assms(1), of initialTasks
      "(sendThinkingMessage (sendGoalMessage a))\<lparr>tasks := initialTasks\<rparr>"]
  by (simp_all add: loopEntry_def getTasks_def Let_def sendThinkingMessage_def sendGoalMessage_def
      sendMessage_effects)

lemma run_loopEntry: "run ev a = loop ev (loopEntry ev a)"
  by (simp add: run_loop loopEntry_def)

lemma example_env_simps [simp]:
  "DEFAULT_MAX_LOOPS_CUSTOM_API_KEY example_env = 50"
  "DEFAULT_MAX_LOOPS_FREE example_env = 4"
  "DEFAULT_MAX_LOOPS_PAID example_env = 16"
  "stopCalls example_env n = 0"
  "executeTaskAgent example_env n ms g t = Inr (''local: '' @ t)"
  "axios_post example_env n url d = Inr ''remote''"
  by (simp_all add: example_env_def)

lemma new_agent_simps [simp]:
  "name (new_agent n g ms s) = n"
  "goal (new_agent n g ms s) = g"
  "tasks (new_agent n g ms s) = []"
  "completedTasks (new_agent n g ms s) = []"
  "runningTasks (new_agent n g ms s) = []"
  "modelSettings (new_agent n g ms s) = ms"
  "isRunning (new_agent n g ms s)"
  "numLoops (new_agent n g ms s) = 0"
  "session (new_agent n g ms s) = s"
  "effects (new_agent n g ms s) = []"
  "awaits (new_agent n g ms s) = 0"
  by (simp_all add: new_agent_def)

lemma maxLoops_loopEntry [simp]: "maxLoops ev (loopEntry ev a) = maxLoops ev a"
  by (rule maxLoops_cong) simp_all

lemma loopMessage_loopEntry [simp]: "loopMessage (loopEntry ev a) = loopMessage a"
  by (rule loopMessage_cong) simp

lemma loopEntry_observations:
  assumes "\<forall>n. stopCalls ev n = 0" and "isRunning a"
  shows "actions (loopEntry ev a) = actions a"
    and "executions (loopEntry ev a) = executions a"
    and "shutdowns (loopEntry ev a) = shutdowns a"
    and "systems (loopEntry ev a) = systems a"
  using loopEntry_quiet(2) [OF assms]
  by (simp_all add: actions_def systems_def rendered_def executions_def shutdowns_def
      thinkingMessage_def taskMessage_def initialTasks_def)

lemma failing_env_simps [simp]:
  "DEFAULT_MAX_LOOPS_CUSTOM_API_KEY (failing_env st) = 50"
  "DEFAULT_MAX_LOOPS_FREE (failing_env st) = 4"
  "DEFAULT_MAX_LOOPS_PAID (failing_env st) = 16"
  "stopCalls (failing_env st) n = 0"
  "axios_post (failing_env st) n url d = Inl (AxiosError (Some st))"
  by (simp_all add: failing_env_def)

lemma failing_tick:
  assumes "isRunning a" and "tasks a \<noteq> []" and "numLoops a < maxLoops ev a"
    and "answer ev (beforeExecution ev a) (hd (tasks a)) = Inl e"
  shows "loop ev a = (fst (executeTask ev (beforeExecution ev a) (hd (tasks a))), Inl e)"
proof -
  define a6 where "a6 = fst (executeTask ev (beforeExecution ev a) (hd (tasks a)))"
  have ex: "executeTask ev (beforeExecution ev a) (hd (tasks a)) = (a6, Inl e)"
    using assms(4) by (simp add: a6_def prod_eq_iff)
  have "loop ev a = (a6, Inl e)"
    using assms(1,2,3) by (subst loop_tick) (simp add: ex)
  then show ?thesis
    by (simp add: a6_def)
qed

lemma executeTask_remote:
  "\<not> shouldRunClientSide a \<Longrightarrow>
     executeTask ev a t = post ev a ''/api/agent/execute'' (RequestBody (modelSettings a) (goal a) t)"
  by (simp add: executeTask_def)

lemma post_effects:
  "effects (fst (post ev a url d)) =
     effects a @ [Executed (case d of RequestBody _ _ t \<Rightarrow> t)] @ stopEffects ev a
     @ (case axios_post ev (awaits a) url d of
          Inr r \<Rightarrow> []
        | Inl e \<Rightarrow> Shutdown #
            (if e = AxiosError (Some 429) \<and> isRunning a \<and> stopCalls ev (awaits a) = 0
             then [Rendered (errorMessage rateLimitNotice)] else []))"
  by (simp add: post_def Let_def suspend_effects sendErrorMessage_def
      sendMessage_effects stopEffects_def split: sum.split)

lemma hd_initialTasks [simp]: "hd initialTasks = ''Introduction''" "initialTasks \<noteq> []"
  by (simp_all add: initialTasks_def)

lemma shouldRunClientSide_loopEntry [simp]:
  "shouldRunClientSide (beforeExecution ev (loopEntry ev a)) = shouldRunClientSide a"
  by (rule shouldRunClientSide_cong) simp

lemma first_execution_fails:
  assumes quiet: "\<forall>n. stopCalls ev n = 0" and run: "isRunning a" and fresh: "numLoops a = 0"
    and cap: "1 \<le> maxLoops ev a"
    and fail: "answer ev (beforeExecution ev (loopEntry ev a)) ''Introduction'' = Inl e"
  shows "run ev a =
           (fst (executeTask ev (beforeExecution ev (loopEntry ev a)) ''Introduction''), Inl e)"
proof -
  have "isRunning (loopEntry ev a)"
    using loopEntry_quiet(1) [OF quiet run] .
  then show ?thesis
    using failing_tick [of "loopEntry ev a" ev e] fail fresh cap
    by (simp add: run_loopEntry)
qed

lemma afterStop_append_notin:
  "Rendered manualShutdownMessage \<notin> set es \<Longrightarrow> afterStop (es @ fs) = afterStop fs"
  by (simp add: afterStop_def dropWhile_append)

lemma afterStop_append_in:
  assumes "Rendered manualShutdownMessage \<in> set es"
  shows "afterStop (es @ fs) = afterStop es @ fs"
proof -
  have "\<not> (\<forall>x\<in>set es. x \<noteq> Rendered manualShutdownMessage)"
    using assms by blast
  then have ne: "dropWhile (\<lambda>e. e \<noteq> Rendered manualShutdownMessage) es \<noteq> []"
    unfolding dropWhile_eq_Nil_conv .
  have "dropWhile (\<lambda>e. e \<noteq> Rendered manualShutdownMessage) (es @ fs) =
      dropWhile (\<lambda>e. e \<noteq> Rendered manualShutdownMessage) es @ fs"
    using assms by (simp add: dropWhile_append1)
  then show ?thesis
    using ne by (simp add: afterStop_def)
qed

lemma afterStop_Cons [simp]: "afterStop (Rendered manualShutdownMessage # fs) = fs"
  by (simp add: afterStop_def)

lemma afterStop_notin:
  assumes "Rendered manualShutdownMessage \<notin> set es"
  shows "afterStop es = []"
proof -
  have "\<forall>x\<in>set es. x \<noteq> Rendered manualShutdownMessage"
    using assms by blast
  then have d: "dropWhile (\<lambda>e. e \<noteq> Rendered manualShutdownMessage) es = []"
    unfolding dropWhile_eq_Nil_conv .
  show ?thesis
    unfolding afterStop_def d by simp
qed

lemma stoppedOnce_cong:
  "isRunning a = isRunning b \<Longrightarrow> effects a = effects b \<Longrightarrow> stoppedOnce n a = stoppedOnce n b"
  by (simp add: stoppedOnce_def)

lemma stoppedOnce_sendMessage:
  "m \<noteq> manualShutdownMessage \<Longrightarrow> stoppedOnce n a \<Longrightarrow> stoppedOnce n (sendMessage a m)"
  by (auto simp: stoppedOnce_def sendMessage_def)

lemma stoppedOnce_shutdown: "stoppedOnce n a \<Longrightarrow> stoppedOnce n (shutdown a)"
  by (auto simp: stoppedOnce_def afterStop_append_in)

lemma stoppedOnce_stopAgent: "stoppedOnce n a \<Longrightarrow> stoppedOnce n (stopAgent a)"
  by (auto simp: stoppedOnce_def stopAgent_effects afterStop_append_in afterStop_append_notin)

lemma stoppedOnce_funpow: "stoppedOnce n a \<Longrightarrow> stoppedOnce n ((stopAgent ^^ k) a)"
  by (induction k) (simp_all add: stoppedOnce_stopAgent)

lemma stoppedOnce_suspend: "stoppedOnce n a \<Longrightarrow> stoppedOnce n (suspend ev a)"
  unfolding suspend_def
  by (rule stoppedOnce_funpow) (simp add: stoppedOnce_cong [of "a\<lparr>awaits := Suc (awaits a)\<rparr>" a])

lemma stoppedOnce_executed:
  "stoppedOnce n a \<Longrightarrow> stoppedOnce (Suc n) (a\<lparr>effects := effects a @ [Executed t]\<rparr>)"
  by (auto simp: stoppedOnce_def afterStop_append_in)

lemma stoppedOnce_running: "isRunning a \<Longrightarrow> stoppedOnce n a \<Longrightarrow> stoppedOnce 0 a"
  by (simp add: stoppedOnce_def)

lemma not_manual [simp]:
  "thinkingMessage \<noteq> manualShutdownMessage"
  "taskMessage t \<noteq> manualShutdownMessage"
  "executionMessage t r \<noteq> manualShutdownMessage"
  "errorMessage rateLimitNotice \<noteq> manualShutdownMessage"
  "completedMessage \<noteq> manualShutdownMessage"
  "loopMessage a \<noteq> manualShutdownMessage"
  "\<lparr>type' = Goal, info = None, value' = g\<rparr> \<noteq> manualShutdownMessage"
  by (simp_all add: thinkingMessage_def taskMessage_def executionMessage_def errorMessage_def
      rateLimitNotice_def completedMessage_def loopMessage_def manualShutdownMessage_def)

lemma stoppedOnce_beforeExecution:
  assumes "stoppedOnce n a"
  shows "stoppedOnce n (beforeExecution ev a)"
proof -
  let ?s = "suspend ev (a\<lparr>numLoops := numLoops a + 1\<rparr>)"
  have "stoppedOnce n (a\<lparr>numLoops := numLoops a + 1\<rparr>)"
    using assms stoppedOnce_cong [of "a\<lparr>numLoops := numLoops a + 1\<rparr>" a] by simp
  then have "stoppedOnce n ?s"
    by (rule stoppedOnce_suspend)
  then have "stoppedOnce n (?s\<lparr>completedTasks := completedTasks a @ [case tasks a of [] \<Rightarrow> [] | t # _ \<Rightarrow> t],
           tasks := tl (tasks a)\<rparr>)"
    by (simp add: stoppedOnce_def)
  then show ?thesis
    unfolding beforeExecution_def sendThinkingMessage_def
    by (rule stoppedOnce_sendMessage [OF not_manual(1)])
qed

lemma stoppedOnce_post:
  assumes "stoppedOnce n a"
  shows "stoppedOnce (Suc n) (fst (post ev a url d))"
proof -
  let ?s = "suspend ev (a\<lparr>effects := effects a @ [Executed (case d of RequestBody _ _ t \<Rightarrow> t)]\<rparr>)"
  have s: "stoppedOnce (Suc n) ?s"
    by (intro stoppedOnce_suspend stoppedOnce_executed assms)
  show ?thesis
  proof (cases "axios_post ev (awaits a) url d")
    case (Inr r)
    then show ?thesis
      using s by (simp add: post_def Let_def)
  next
    case (Inl e)
    have "stoppedOnce (Suc n) (shutdown ?s)"
      by (rule stoppedOnce_shutdown [OF s])
    moreover from this have "stoppedOnce (Suc n) (sendErrorMessage (shutdown ?s) rateLimitNotice)"
      unfolding sendErrorMessage_def by (rule stoppedOnce_sendMessage [OF not_manual(4)])
    ultimately show ?thesis
      using Inl by (simp add: post_def Let_def)
  qed
qed

lemma stoppedOnce_executeTask:
  assumes "stoppedOnce n a"
  shows "stoppedOnce (Suc n) (fst (executeTask ev a t))"
proof (cases "shouldRunClientSide a")
  case True
  then show ?thesis
    by (simp add: executeTask_def stoppedOnce_suspend stoppedOnce_executed assms)
next
  case False
  then show ?thesis
    by (simp add: executeTask_def stoppedOnce_post assms)
qed

lemma stoppedOnce_afterExecution:
  assumes "stoppedOnce n a"
  shows "stoppedOnce n (afterExecution ev a t r)"
proof -
  have "stoppedOnce n (sendExecutionMessage a t r)"
    unfolding sendExecutionMessage_def
    by (rule stoppedOnce_sendMessage [OF not_manual(3) assms])
  then have "stoppedOnce n ((sendExecutionMessage a t r)\<lparr>runningTasks := runningTasks a @ [t]\<rparr>)"
    by (simp add: stoppedOnce_def)
  then show ?thesis
    unfolding afterExecution_def by (rule stoppedOnce_suspend)
qed

lemma stoppedOnce_announce:
  "stoppedOnce n a \<Longrightarrow> stoppedOnce n (fst (announce ev ts a))"
proof (induction ts arbitrary: a)
  case Nil
  then show ?case by simp
next
  case (Cons t ts)
  have "stoppedOnce n (sendTaskMessage (suspend ev a) t)"
    unfolding sendTaskMessage_def
    by (intro stoppedOnce_sendMessage not_manual stoppedOnce_suspend Cons.prems)
  then show ?case
    using Cons.IH by simp
qed

lemma stoppedOnce_loopEntry:
  assumes "stoppedOnce n a"
  shows "stoppedOnce n (loopEntry ev a)"
proof -
  let ?p = "sendThinkingMessage (sendGoalMessage a)"
  have "stoppedOnce n ?p"
    unfolding sendThinkingMessage_def sendGoalMessage_def
    by (intro stoppedOnce_sendMessage not_manual assms)
  then have "stoppedOnce n (?p\<lparr>tasks := initialTasks\<rparr>)"
    by (simp add: stoppedOnce_def)
  then show ?thesis
    unfolding loopEntry_def getTasks_def Let_def
    by (simp add: stoppedOnce_announce)
qed

lemma stoppedOnce_loop:
  "stoppedOnce 1 a \<Longrightarrow> stoppedOnce 1 (fst (loop ev a))"
proof (induction "tasks a" arbitrary: a)
  case Nil
  show ?case
  proof (cases "isRunning a")
    case False
    then show ?thesis
      using Nil.prems by (subst loop_tick) simp
  next
    case True
    have "stoppedOnce 1 (shutdown (sendCompletedMessage a))"
      unfolding sendCompletedMessage_def
      by (intro stoppedOnce_shutdown stoppedOnce_sendMessage not_manual Nil.prems)
    then show ?thesis
      using True Nil.hyps by (subst loop_tick) simp
  qed
next
  case (Cons t ts)
  show ?case
  proof (cases "isRunning a")
    case False
    then show ?thesis
      using Cons.prems by (subst loop_tick) simp
  next
    case True
    show ?thesis
    proof (cases "maxLoops ev a < numLoops a + 1")
      case capped: True
      have "stoppedOnce 1 (a\<lparr>numLoops := numLoops a + 1\<rparr>)"
        using Cons.prems stoppedOnce_cong [of "a\<lparr>numLoops := numLoops a + 1\<rparr>" a] by simp
      then have "stoppedOnce 1 (shutdown (sendLoopMessage (a\<lparr>numLoops := numLoops a + 1\<rparr>)))"
        unfolding sendLoopMessage_def
        by (intro stoppedOnce_shutdown stoppedOnce_sendMessage not_manual)
      then show ?thesis
        using True capped Cons.hyps(2) [symmetric] by (subst loop_tick) simp
    next
      case False
      let ?b = "beforeExecution ev a"
      have b: "stoppedOnce 0 ?b"
        by (intro stoppedOnce_beforeExecution stoppedOnce_running [OF True Cons.prems])
      define a6 where "a6 = fst (executeTask ev ?b t)"
      have a6: "stoppedOnce 1 a6"
        unfolding a6_def using stoppedOnce_executeTask [OF b] by simp
      show ?thesis
      proof (cases "answer ev ?b t")
        case (Inl e)
        then have "executeTask ev ?b t = (a6, Inl e)"
          by (simp add: a6_def prod_eq_iff)
        then have "loop ev a = (a6, Inl e)"
          using True False Cons.hyps(2) [symmetric] by (subst loop_tick) simp
        then show ?thesis
          using a6 by simp
      next
        case (Inr r)
        then have "executeTask ev ?b t = (a6, Inr r)"
          by (simp add: a6_def prod_eq_iff)
        then have step: "loop ev a = loop ev (afterExecution ev a6 t r)"
          using True False Cons.hyps(2) [symmetric] by (subst loop_tick) simp
        have "ts = tasks (afterExecution ev a6 t r)"
          using Cons.hyps(2) [symmetric] by (simp add: a6_def)
        then show ?thesis
          using Cons.hyps(1) [of "afterExecution ev a6 t r"] stoppedOnce_afterExecution [OF a6] step
          by simp
      qed
    qed
  qed
qed

lemma stoppedOnce_run:
  "stoppedOnce 1 a \<Longrightarrow> stoppedOnce 1 (fst (run ev a))"
  unfolding run_loopEntry by (intro stoppedOnce_loop stoppedOnce_loopEntry)

lemma synced_suspend: "synced ev a \<Longrightarrow> synced ev (suspend ev a)"
  by (auto simp: synced_def less_Suc_eq)

lemma synced_sendMessage: "synced ev a \<Longrightarrow> synced ev (sendMessage a m)"
  by (simp add: synced_def)

lemma synced_announce: "synced ev a \<Longrightarrow> synced ev (fst (announce ev ts a))"
proof (induction ts arbitrary: a)
  case Nil
  then show ?case by simp
next
  case (Cons t ts)
  have "synced ev (sendTaskMessage (suspend ev a) t)"
    unfolding sendTaskMessage_def
    by (intro synced_sendMessage synced_suspend Cons.prems)
  then show ?case
    using Cons.IH by simp
qed

lemma synced_loopEntry:
  assumes "synced ev a"
  shows "synced ev (loopEntry ev a)"
proof -
  let ?p = "sendThinkingMessage (sendGoalMessage a)"
  have "synced ev ?p"
    unfolding sendThinkingMessage_def sendGoalMessage_def
    by (intro synced_sendMessage assms)
  then have "synced ev (?p\<lparr>tasks := initialTasks\<rparr>)"
    by (simp add: synced_def)
  then show ?thesis
    unfolding loopEntry_def getTasks_def Let_def
    by (simp add: synced_announce)
qed

lemma onlyManual_sendMessage:
  "type' m \<noteq> Action \<Longrightarrow> type' m \<noteq> System \<Longrightarrow> onlyManual a \<Longrightarrow> onlyManual (sendMessage a m)"
  by (simp add: onlyManual_def actions_def systems_def rendered_def sendMessage_effects)

lemma onlyManual_suspend: "onlyManual a \<Longrightarrow> onlyManual (suspend ev a)"
  by (auto simp: onlyManual_def actions_def systems_def rendered_def suspend_effects
      stopEffects_def manualShutdownMessage_def)

lemma onlyManual_announce: "onlyManual a \<Longrightarrow> onlyManual (fst (announce ev ts a))"
proof (induction ts arbitrary: a)
  case Nil
  then show ?case by simp
next
  case (Cons t ts)
  have "onlyManual (sendTaskMessage (suspend ev a) t)"
    unfolding sendTaskMessage_def
    by (intro onlyManual_sendMessage onlyManual_suspend Cons.prems)
       (simp_all add: taskMessage_def)
  then show ?case
    using Cons.IH by simp
qed

lemma onlyManual_loopEntry:
  assumes "onlyManual a"
  shows "onlyManual (loopEntry ev a)"
proof -
  let ?p = "sendThinkingMessage (sendGoalMessage a)"
  have "onlyManual ?p"
    unfolding sendThinkingMessage_def sendGoalMessage_def
    by (intro onlyManual_sendMessage assms) (simp_all add: thinkingMessage_def)
  then have "onlyManual (?p\<lparr>tasks := initialTasks\<rparr>)"
    by (simp add: onlyManual_def actions_def systems_def rendered_def)
  then show ?thesis
    unfolding loopEntry_def getTasks_def Let_def
    by (simp add: onlyManual_announce)
qed

lemma onlyManual_beforeExecution: "onlyManual a \<Longrightarrow> onlyManual (beforeExecution ev a)"
  by (auto simp: onlyManual_def actions_def systems_def rendered_def beforeExecution_effects
      stopEffects_def manualShutdownMessage_def thinkingMessage_def)

lemma onlyManual_executeTask:
  "onlyManual a \<Longrightarrow> \<not> isRunning (fst (executeTask ev a t)) \<Longrightarrow>
     onlyManual (fst (executeTask ev a t))"
  by (auto simp: onlyManual_def actions_def systems_def rendered_def executeTask_effects
      stopEffects_def manualShutdownMessage_def split: sum.splits)

lemma onlyManual_afterExecution:
  "onlyManual a \<Longrightarrow> \<not> isRunning a \<Longrightarrow> onlyManual (afterExecution ev a t r)"
  by (auto simp: onlyManual_def actions_def systems_def rendered_def afterExecution_effects
      stopEffects_def)

lemma stopped_before_first_action:
  assumes om: "onlyManual a" and sy: "synced ev a"
    and k: "k \<le> Suc (awaits a)" "0 < stopCalls ev k" "k < awaits (fst (loop ev a))"
  shows "onlyManual (fst (loop ev a)) \<and> \<not> isRunning (fst (loop ev a))"
proof (cases "isRunning a")
  case False
  then have "loop ev a = (a, Inr ())"
    by (subst loop_tick) simp
  then show ?thesis
    using om False by simp
next
  case True
  then have early: "\<forall>j<awaits a. stopCalls ev j = 0"
    using sy by (simp add: synced_def)
  have work: "tasks a \<noteq> [] \<and> \<not> maxLoops ev a < numLoops a + 1"
  proof (rule ccontr)
    assume "\<not> (tasks a \<noteq> [] \<and> \<not> maxLoops ev a < numLoops a + 1)"
    then have "awaits (fst (loop ev a)) = awaits a"
      using True by (subst loop_tick) (auto simp: sendCompletedMessage_def sendLoopMessage_def)
    then show False
      using k early by simp
  qed
  let ?t = "hd (tasks a)"
  let ?b = "beforeExecution ev a"
  define a6 where "a6 = fst (executeTask ev ?b ?t)"
  have "k = awaits a \<or> k = Suc (awaits a)"
    using k early by (metis le_SucE le_neq_implies_less less_numeral_extra(3))
  then have stopped: "\<not> isRunning a6"
    using k(2) by (auto simp: a6_def)
  have om6: "onlyManual a6"
    unfolding a6_def
    by (rule onlyManual_executeTask [OF onlyManual_beforeExecution [OF om]])
       (use stopped in \<open>simp add: a6_def\<close>)
  show ?thesis
  proof (cases "answer ev ?b ?t")
    case (Inl e)
    then have "loop ev a = (a6, Inl e)"
      using failing_tick [of a ev e] True work by (simp add: a6_def)
    then show ?thesis
      using om6 stopped by simp
  next
    case (Inr r)
    then have "executeTask ev ?b ?t = (a6, Inr r)"
      by (simp add: a6_def prod_eq_iff)
    then have "loop ev a = loop ev (afterExecution ev a6 ?t r)"
      using True work by (subst loop_tick) simp
    moreover have "loop ev (afterExecution ev a6 ?t r) = (afterExecution ev a6 ?t r, Inr ())"
      using stopped by (subst loop_tick) simp
    ultimately show ?thesis
      using onlyManual_afterExecution [OF om6 stopped] stopped by simp
  qed
qed

lemma stopped_sendMessage: "\<not> isRunning a \<Longrightarrow> sendMessage a m = a"
  by (simp add: sendMessage_def)

lemma stopped_loop: "\<not> isRunning a \<Longrightarrow> loop ev a = (a, Inr ())"
  by (subst loop_tick) simp

lemma stopped_suspend:
  "\<not> isRunning a \<Longrightarrow>
     \<not> isRunning (suspend ev a) \<and> rendered (suspend ev a) = rendered a \<and>
     executions (suspend ev a) = executions a"
  by (simp add: rendered_def executions_def suspend_effects stopEffects_def)

lemma stopped_announce:
  "\<not> isRunning a \<Longrightarrow>
     \<not> isRunning (fst (announce ev ts a)) \<and> rendered (fst (announce ev ts a)) = rendered a \<and>
     executions (fst (announce ev ts a)) = executions a"
proof (induction ts arbitrary: a)
  case Nil
  then show ?case by simp
next
  case (Cons t ts)
  have s: "\<not> isRunning (suspend ev a)" "rendered (suspend ev a) = rendered a"
    "executions (suspend ev a) = executions a"
    using stopped_suspend [OF Cons.prems] by simp_all
  have "sendTaskMessage (suspend ev a) t = suspend ev a"
    unfolding sendTaskMessage_def by (rule stopped_sendMessage [OF s(1)])
  then show ?case
    using Cons.IH [OF s(1)] s by simp
qed

lemma stopped_run:
  assumes "\<not> isRunning a"
  shows "\<not> isRunning (fst (run ev a)) \<and> rendered (fst (run ev a)) = rendered a \<and>
         executions (fst (run ev a)) = executions a"
proof -
  have p: "sendThinkingMessage (sendGoalMessage a) = a"
    using assms by (simp add: sendThinkingMessage_def sendGoalMessage_def sendMessage_def)
  have "\<not> isRunning (a\<lparr>tasks := initialTasks\<rparr>)"
    using assms by simp
  from stopped_announce [OF this, of ev initialTasks]
  have "\<not> isRunning (loopEntry ev a) \<and> rendered (loopEntry ev a) = rendered a \<and>
      executions (loopEntry ev a) = executions a"
    by (simp add: loopEntry_def getTasks_def Let_def p rendered_def executions_def)
  then show ?thesis
    by (simp add: run_loopEntry stopped_loop)
qed

lemma stoppedOnce_new_agent: "stoppedOnce k (new_agent n g ms s)"
  by (simp add: stoppedOnce_def)

lemma onlyManual_new_agent: "onlyManual (new_agent n g ms s)"
  by (simp add: onlyManual_def actions_def systems_def rendered_def)

lemma synced_new_agent: "synced ev (new_agent n g ms s)"
  by (simp add: synced_def)

section \<open>A message sink that throws\<close>

text \<open>
  The caller's \<open>renderMessage\<close> as a function that tells, for a message, what the call throws
  (\<open>None\<close>: it returns). The operations of the controller follow, with every call of
  \<open>renderMessage\<close> able to throw; \<open>sendMessage_sink sk a m\<close> with one of the messages above
  stands for the corresponding \<open>send...Message\<close> method. A call that throws delivers nothing
  and is not recorded in \<open>effects\<close>. A throw inside a \<open>stopAgent\<close> that the page calls goes to
  the page, not to the run: the controller resumes in the state that the call left.
\<close>

type_synonym sink = "Message \<Rightarrow> failure option"

definition sendMessage_sink :: "sink \<Rightarrow> agent \<Rightarrow> Message \<Rightarrow> agent \<times> (failure + unit)" where
  "sendMessage_sink sk a m =
     (if isRunning a
      then (case sk m of
              None \<Rightarrow> (a\<lparr>effects := effects a @ [Rendered m]\<rparr>, Inr ())
            | Some e \<Rightarrow> (a, Inl e))
      else (a, Inr ()))"

definition stopAgent_sink :: "sink \<Rightarrow> agent \<Rightarrow> agent \<times> (failure + unit)" where
  "stopAgent_sink sk a =
     (case sendMessage_sink sk a manualShutdownMessage of
        (a1, Inl e) \<Rightarrow> (a1, Inl e)
      | (a1, Inr _) \<Rightarrow> (shutdown (a1\<lparr>isRunning := False\<rparr>), Inr ()))"

definition suspend_sink :: "sink \<Rightarrow> env \<Rightarrow> agent \<Rightarrow> agent" where
  "suspend_sink sk ev a =
     ((\<lambda>b. fst (stopAgent_sink sk b)) ^^ stopCalls ev (awaits a)) (a\<lparr>awaits := Suc (awaits a)\<rparr>)"

definition post_sink ::
  "sink \<Rightarrow> env \<Rightarrow> agent \<Rightarrow> string \<Rightarrow> RequestBody \<Rightarrow> agent \<times> (failure + string)" where
  "post_sink sk ev a url data =
     (let response = axios_post ev (awaits a) url data;
          a1 = suspend_sink sk ev
                 (a\<lparr>effects := effects a @ [Executed (case data of RequestBody _ _ t \<Rightarrow> t)]\<rparr>)
      in case response of
           Inr res \<Rightarrow> (a1, Inr res)
         | Inl e \<Rightarrow>
             (let a2 = shutdown a1
              in if e = AxiosError (Some 429)
                 then (case sendMessage_sink sk a2 (errorMessage rateLimitNotice) of
                         (a3, Inl e') \<Rightarrow> (a3, Inl e')
                       | (a3, Inr _) \<Rightarrow> (a3, Inl e))
                 else (a2, Inl e)))"

definition executeTask_sink ::
  "sink \<Rightarrow> env \<Rightarrow> agent \<Rightarrow> string \<Rightarrow> agent \<times> (failure + string)" where
  "executeTask_sink sk ev a t =
     (if shouldRunClientSide a
      then (suspend_sink sk ev (a\<lparr>effects := effects a @ [Executed t]\<rparr>),
            executeTaskAgent ev (awaits a) (modelSettings a) (goal a) t)
      else post_sink sk ev a ''/api/agent/execute'' (RequestBody (modelSettings a) (goal a) t))"

lemma sendMessage_sink_tasks [simp]: "tasks (fst (sendMessage_sink sk a m)) = tasks a"
  by (simp add: sendMessage_sink_def split: option.split)

lemma stopAgent_sink_tasks [simp]: "tasks (fst (stopAgent_sink sk a)) = tasks a"
  by (simp add: stopAgent_sink_def sendMessage_sink_def split: option.split)

lemma stopAgent_sink_funpow_tasks [simp]:
  "tasks (((\<lambda>b. fst (stopAgent_sink sk b)) ^^ n) a) = tasks a"
  by (induction n) simp_all

lemma suspend_sink_tasks [simp]: "tasks (suspend_sink sk ev a) = tasks a"
  by (simp add: suspend_sink_def)

lemma post_sink_tasks [simp]: "tasks (fst (post_sink sk ev a url d)) = tasks a"
  by (simp add: post_sink_def Let_def sendMessage_sink_def split: sum.split option.split)

lemma executeTask_sink_tasks [simp]: "tasks (fst (executeTask_sink sk ev a t)) = tasks a"
  by (simp add: executeTask_sink_def)

function loop_sink :: "sink \<Rightarrow> env \<Rightarrow> agent \<Rightarrow> agent \<times> (failure + unit)" where
  "loop_sink sk ev a =
     (if \<not> isRunning a then (a, Inr ())
      else if tasks a = []
      then (case sendMessage_sink sk a completedMessage of
              (b, Inl e) \<Rightarrow> (b, Inl e)
            | (b, Inr _) \<Rightarrow> (shutdown b, Inr ()))
      else
        (let a1 = a\<lparr>numLoops := numLoops a + 1\<rparr> in
         if numLoops a1 > maxLoops ev a1
         then (case sendMessage_sink sk a1 (loopMessage a1) of
                 (b, Inl e) \<Rightarrow> (b, Inl e)
               | (b, Inr _) \<Rightarrow> (shutdown b, Inr ()))
         else
           (let a2 = suspend_sink sk ev a1;
                a3 = a2\<lparr>completedTasks :=
                          completedTasks a2 @ [case tasks a2 of [] \<Rightarrow> [] | t # _ \<Rightarrow> t]\<rparr>;
                currentTask = (case tasks a3 of [] \<Rightarrow> [] | t # _ \<Rightarrow> t);
                a4 = a3\<lparr>tasks := tl (tasks a3)\<rparr>
            in case sendMessage_sink sk a4 thinkingMessage of
                 (a5, Inl e) \<Rightarrow> (a5, Inl e)
               | (a5, Inr _) \<Rightarrow>
                   (case executeTask_sink sk ev a5 currentTask of
                      (a6, Inl e) \<Rightarrow> (a6, Inl e)
                    | (a6, Inr result) \<Rightarrow>
                        (case sendMessage_sink sk a6 (executionMessage currentTask result) of
                           (a7, Inl e) \<Rightarrow> (a7, Inl e)
                         | (a7, Inr _) \<Rightarrow>
                             (let a8 = a7\<lparr>runningTasks := runningTasks a7 @ [currentTask]\<rparr>
                              in loop_sink sk ev (suspend_sink sk ev a8)))))))"
  by pat_completeness auto

termination loop_sink
proof (relation "measure (\<lambda>(sk, ev, a). length (tasks a))", goal_cases)
  case 1
  show ?case by simp
next
  case (2 sk ev a a1 a2 a3 currentTask a4 a5 y u a6 ya result a7 yb v a8)
  have "tasks a5 = tasks (fst (sendMessage_sink sk a4 thinkingMessage))"
    using 2 by (metis fst_conv)
  moreover have "tasks a6 = tasks (fst (executeTask_sink sk ev a5 currentTask))"
    using 2 by (metis fst_conv)
  moreover have "tasks a7 = tasks (fst (sendMessage_sink sk a6 (executionMessage currentTask result)))"
    using 2 by (metis fst_conv)
  ultimately have "tasks a8 = tl (tasks a)"
    using 2 by simp
  then show ?case
    using 2 by simp
qed

declare loop_sink.simps [simp del]

text \<open>
  \<open>run\<close> with such a sink. A throw of the \<open>for\<close> loop (lines 55 to 58) leaves the \<open>try\<close>
  block and reaches the \<open>catch\<close> block (lines 59 to 63), the \<open>Inl\<close> branch of the \<open>case\<close> on
  \<open>getTasks_sink\<close>; a throw of lines 49, 50 or 61 leaves \<open>run\<close>.
\<close>

fun announce_sink :: "sink \<Rightarrow> env \<Rightarrow> string list \<Rightarrow> agent \<Rightarrow> agent \<times> (failure + unit)" where
  "announce_sink sk ev [] a = (a, Inr ())"
| "announce_sink sk ev (t # ts) a =
     (case sendMessage_sink sk (suspend_sink sk ev a) (taskMessage t) of
        (a1, Inl e) \<Rightarrow> (a1, Inl e)
      | (a1, Inr _) \<Rightarrow> announce_sink sk ev ts a1)"

definition getTasks_sink :: "sink \<Rightarrow> env \<Rightarrow> agent \<Rightarrow> agent \<times> (failure + unit)" where
  "getTasks_sink sk ev a =
     (let a1 = a\<lparr>tasks := initialTasks\<rparr> in announce_sink sk ev (tasks a1) a1)"

definition run_sink :: "sink \<Rightarrow> env \<Rightarrow> agent \<Rightarrow> agent \<times> (failure + unit)" where
  "run_sink sk ev a =
     (case sendMessage_sink sk a \<lparr>type' = Goal, info = None, value' = goal a\<rparr> of
        (a0, Inl e) \<Rightarrow> (a0, Inl e)
      | (a0, Inr _) \<Rightarrow>
          (case sendMessage_sink sk a0 thinkingMessage of
             (a1, Inl e) \<Rightarrow> (a1, Inl e)
           | (a1, Inr _) \<Rightarrow>
               (case getTasks_sink sk ev a1 of
                  (a2, Inl e) \<Rightarrow>
                    (case sendMessage_sink sk a2 (errorMessage (getMessageFromError e)) of
                       (a3, Inl e') \<Rightarrow> (a3, Inl e')
                     | (a3, Inr _) \<Rightarrow> (shutdown a3, Inr ()))
                | (a2, Inr _) \<Rightarrow> loop_sink sk ev a2)))"

text \<open>
  Two sinks: one that always returns, one that throws on every task message. With the
  first, the operations are those of the sections above.
\<close>

definition quiet_sink :: sink where
  "quiet_sink = (\<lambda>m. None)"


lemma sendMessage_quiet_sink [simp]: "sendMessage_sink quiet_sink a m = (sendMessage a m, Inr ())"
  by (simp add: sendMessage_sink_def sendMessage_def quiet_sink_def)

lemma stopAgent_quiet_sink [simp]: "stopAgent_sink quiet_sink a = (stopAgent a, Inr ())"
  by (simp add: stopAgent_sink_def stopAgent_def sendManualShutdownMessage_def)

lemma suspend_quiet_sink [simp]: "suspend_sink quiet_sink ev a = suspend ev a"
  by (simp add: suspend_sink_def suspend_def)

lemma post_quiet_sink [simp]: "post_sink quiet_sink ev a url d = post ev a url d"
  by (simp add: post_sink_def post_def Let_def sendErrorMessage_def split: sum.split)

lemma executeTask_quiet_sink [simp]: "executeTask_sink quiet_sink ev a t = executeTask ev a t"
  by (simp add: executeTask_sink_def executeTask_def)

lemma announce_quiet_sink [simp]: "announce_sink quiet_sink ev ts a = announce ev ts a"
  by (induction ts arbitrary: a) (simp_all add: sendTaskMessage_def)

lemma getTasks_quiet_sink [simp]: "getTasks_sink quiet_sink ev a = getTasks ev a"
  by (simp add: getTasks_sink_def getTasks_def)

lemma executeTask_tasks_eq: "executeTask ev c t = (b, r) \<Longrightarrow> tasks b = tasks c"
  using executeTask_frame(3) [of ev c t] by simp

lemma loop_quiet_sink [simp]: "loop_sink quiet_sink ev a = loop ev a"
proof (induction "tasks a" arbitrary: a)
  case Nil
  then show ?case
    by (subst loop_sink.simps, subst loop.simps) (simp add: sendCompletedMessage_def)
next
  case (Cons t ts)
  let ?a4 = "(suspend ev (a\<lparr>numLoops := numLoops a + 1\<rparr>))
      \<lparr>completedTasks := completedTasks a @ [t], tasks := ts\<rparr>"
  have IH: "loop_sink quiet_sink ev (suspend ev b) = loop ev (suspend ev b)" if "tasks b = ts" for b
    using Cons.hyps(1) [of "suspend ev b"] that by simp
  show ?case
    using Cons.hyps(2) [symmetric]
    by (subst loop_sink.simps, subst loop.simps)
       (auto simp add: Let_def sendLoopMessage_def sendThinkingMessage_def
          sendExecutionMessage_def split: prod.split sum.split
          dest!: executeTask_tasks_eq intro!: IH)
qed

lemma run_quiet_sink: "run_sink quiet_sink ev a = run ev a"
  by (simp add: run_sink_def run_def Let_def sendGoalMessage_def sendThinkingMessage_def
      sendErrorMessage_def split: prod.split sum.split)

lemma announce_sink_tasks [simp]: "tasks (fst (announce_sink sk ev ts a)) = tasks a"
proof (induction ts arbitrary: a)
  case Nil
  show ?case by simp
next
  case (Cons t ts)
  obtain b r where s: "sendMessage_sink sk (suspend_sink sk ev a) (taskMessage t) = (b, r)"
    by (cases "sendMessage_sink sk (suspend_sink sk ev a) (taskMessage t)")
  then have "tasks b = tasks a"
    using sendMessage_sink_tasks [of sk "suspend_sink sk ev a" "taskMessage t"] by simp
  then show ?case
    using s Cons.IH [of b] by (cases r) simp_all
qed




section \<open>Loop-cap resolution\<close>

text \<open>
  C3, as the code has it. Loop-cap resolution reads only the configuration and the session.
  A credential is configured when \<open>customApiKey\<close> is a non-empty string, an identity is paid
  when the session carries a non-empty \<open>subscriptionId\<close>. Without credential the cap is the
  free-tier constant, or the paid-tier constant for a paid identity; with a credential it is
  the custom-key default when there is no override, and the override \<open>K\<close> when \<open>K\<close> is
  not \<open>0\<close>.
\<close>

theorem maxLoops_resolution:
  "(\<not> truthy_string (customApiKey (modelSettings a)) \<and>
      \<not> truthy_string (case session a of None \<Rightarrow> None | Some s \<Rightarrow> subscriptionId (user s))
      \<longrightarrow> maxLoops ev a = DEFAULT_MAX_LOOPS_FREE ev) \<and>
   (\<not> truthy_string (customApiKey (modelSettings a)) \<and>
      truthy_string (case session a of None \<Rightarrow> None | Some s \<Rightarrow> subscriptionId (user s))
      \<longrightarrow> maxLoops ev a = DEFAULT_MAX_LOOPS_PAID ev) \<and>
   (truthy_string (customApiKey (modelSettings a)) \<and> customMaxLoops (modelSettings a) = None
      \<longrightarrow> maxLoops ev a = DEFAULT_MAX_LOOPS_CUSTOM_API_KEY ev) \<and>
   (truthy_string (customApiKey (modelSettings a)) \<and> customMaxLoops (modelSettings a) = Some K
      \<and> K \<noteq> 0 \<longrightarrow> maxLoops ev a = K) \<and>
   maxLoops ev (a\<lparr>name := n, goal := g, tasks := ts, completedTasks := cs, runningTasks := rs,
                  isRunning := r, numLoops := l, effects := es, awaits := w\<rparr>) = maxLoops ev a"
  by (simp add: maxLoops_def)

theorem maxLoops_resolution_witness:
  "maxLoops example_env (new_agent ''a'' ''g'' no_key None) = 4 \<and>
   maxLoops example_env (new_agent ''a'' ''g'' no_key (Some paid_session)) = 16 \<and>
   maxLoops example_env (new_agent ''a'' ''g'' (own_key None) None) = 50 \<and>
   maxLoops example_env (new_agent ''a'' ''g'' (own_key (Some 7)) None) = 7"
  using maxLoops_resolution [of "new_agent ''a'' ''g'' no_key None" example_env 7]
    maxLoops_resolution [of "new_agent ''a'' ''g'' no_key (Some paid_session)" example_env 7]
    maxLoops_resolution [of "new_agent ''a'' ''g'' (own_key None) None" example_env 7]
    maxLoops_resolution [of "new_agent ''a'' ''g'' (own_key (Some 7)) None" example_env 7]
  by (simp add: new_agent_def no_key_def own_key_def paid_session_def example_env_def
      truthy_string_def)

text \<open>
  C3 as it is written fails for the override \<open>0\<close>: \<open>0 || DEFAULT_MAX_LOOPS_CUSTOM_API_KEY\<close>
  is the default, not \<open>0\<close>.
\<close>

theorem maxLoops_override_zero:
  "truthy_string (customApiKey (modelSettings (new_agent ''a'' ''g'' (own_key (Some 0)) None))) \<and>
   customMaxLoops (modelSettings (new_agent ''a'' ''g'' (own_key (Some 0)) None)) = Some 0 \<and>
   maxLoops example_env (new_agent ''a'' ''g'' (own_key (Some 0)) None) = 50 \<and>
   maxLoops example_env (new_agent ''a'' ''g'' (own_key (Some 0)) None) \<noteq> 0"
  by (simp add: maxLoops_def new_agent_def own_key_def example_env_def truthy_string_def)

section \<open>Cancellation\<close>

text \<open>
  C10. A second \<open>stopAgent\<close> on the same run invokes the shutdown hook once more and
  delivers nothing to the sink: after the first call \<open>isRunning\<close> is false, so the guard of
  \<open>sendMessage\<close> drops the second manual-shutdown message.
\<close>

theorem stopAgent_twice:
  "\<not> isRunning (stopAgent a) \<and>
   sendManualShutdownMessage (stopAgent a) = stopAgent a \<and>
   effects (stopAgent (stopAgent a)) = effects (stopAgent a) @ [Shutdown] \<and>
   rendered (stopAgent (stopAgent a)) = rendered (stopAgent a) \<and>
   shutdowns (stopAgent (stopAgent a)) = Suc (shutdowns (stopAgent a))"
  by (simp add: stopAgent_effects rendered_def shutdowns_def sendManualShutdownMessage_def
      sendMessage_def)

section \<open>Decomposition\<close>




section \<open>The loop without interference\<close>

text \<open>
  C1. The loop is entered with a non-empty task list of length \<open>N\<close>, the resolved cap is at
  least \<open>N\<close>, no execution fails and nobody calls \<open>stopAgent\<close>. Then the loop delivers
  exactly \<open>N\<close> more action messages, one per task and in the order of the task list,
  executes exactly these tasks, and ends by delivering the completion message and invoking
  the shutdown hook, once.
\<close>

theorem loop_natural_completion:
  assumes "isRunning a" and "numLoops a = 0" and "tasks a \<noteq> []"
    and "int (length (tasks a)) \<le> maxLoops ev a"
    and "\<forall>n. stopCalls ev n = 0"
    and "\<forall>n ms g t. \<not> isl (executeTaskAgent ev n ms g t)"
    and "\<forall>n u d. \<not> isl (axios_post ev n u d)"
  shows "snd (loop ev a) = Inr () \<and>
         length (actions (fst (loop ev a))) = length (actions a) + length (tasks a) \<and>
         map info (actions (fst (loop ev a))) =
           map info (actions a)
           @ map (\<lambda>t. Some (''Executing '' @ [CHR 0x22] @ t @ [CHR 0x22])) (tasks a) \<and>
         executions (fst (loop ev a)) = executions a @ tasks a \<and>
         suffix [Rendered completedMessage, Shutdown] (effects (fst (loop ev a))) \<and>
         shutdowns (fst (loop ev a)) = Suc (shutdowns a)"
proof -
  have cap: "numLoops a \<le> maxLoops ev a"
    using assms(2,4) by simp
  have cnt: "executed_count ev a = length (tasks a)"
    using assms(2,4) by (simp add: executed_count_def)
  have lm: "lastMessage ev a = completedMessage"
    using assms(2,4) by (simp add: lastMessage_def)
  from quiet_loop [OF assms(5,6,7,1) cap]
  obtain es where res: "snd (loop ev a) = Inr ()"
    and es: "effects (fst (loop ev a)) = effects a @ es @ [Rendered completedMessage, Shutdown]"
      "executedOf es = tasks a"
      "map info (filter (\<lambda>m. type' m = Action) (renderedOf es)) =
         map (\<lambda>t. Some (''Executing '' @ [CHR 0x22] @ t @ [CHR 0x22])) (tasks a)"
      "count_list es Shutdown = 0"
    unfolding cnt lm by auto
  have len: "length (filter (\<lambda>m. type' m = Action) (renderedOf es)) = length (tasks a)"
    using arg_cong [OF es(3), of length] by simp
  have "suffix [Rendered completedMessage, Shutdown] (effects (fst (loop ev a)))"
    unfolding es(1) suffix_def by (intro exI [of _ "effects a @ es"]) simp
  then show ?thesis
    using res es(2,3,4) len
    by (simp add: es(1) actions_def rendered_def executions_def shutdowns_def completedMessage_def)
qed

theorem loop_natural_completion_witness:
  "snd (run example_env (new_agent ''agent'' ''a shop'' (own_key None) None)) = Inr () \<and>
   map info (actions (fst (run example_env (new_agent ''agent'' ''a shop'' (own_key None) None)))) =
     map (\<lambda>t. Some (''Executing '' @ [CHR 0x22] @ t @ [CHR 0x22])) initialTasks \<and>
   suffix [Rendered completedMessage, Shutdown]
     (effects (fst (run example_env (new_agent ''agent'' ''a shop'' (own_key None) None)))) \<and>
   shutdowns (fst (run example_env (new_agent ''agent'' ''a shop'' (own_key None) None))) = 1"
proof -
  let ?fresh = "new_agent ''agent'' ''a shop'' (own_key None) None"
  let ?entry = "loopEntry example_env ?fresh"
  have quiet: "\<forall>n. stopCalls example_env n = 0" by simp
  have 1: "isRunning ?entry"
    by (rule loopEntry_quiet(1)) simp_all
  have 2: "numLoops ?entry = 0" by simp
  have 3: "tasks ?entry \<noteq> []" by (simp add: initialTasks_def)
  have 4: "int (length (tasks ?entry)) \<le> maxLoops example_env ?entry"
    by (simp add: initialTasks_def maxLoops_def own_key_def truthy_string_def)
  have 5: "\<forall>n ms g t. \<not> isl (executeTaskAgent example_env n ms g t)" by simp
  have 6: "\<forall>n u d. \<not> isl (axios_post example_env n u d)" by simp
  have obs: "actions ?entry = []" "shutdowns ?entry = 0"
    using loopEntry_observations [OF quiet, of ?fresh]
    by (simp_all add: actions_def rendered_def shutdowns_def)
  show ?thesis
    using loop_natural_completion [OF 1 2 3 4 quiet 5 6] obs
    by (simp add: run_loopEntry)
qed

text \<open>
  C2. The loop is entered with \<open>N\<close> tasks and the resolved cap is \<open>C < N\<close> (a number of
  tasks, so a natural number); no execution fails and nobody calls \<open>stopAgent\<close>. Then the
  loop delivers exactly \<open>C\<close> more action messages, for the first \<open>C\<close> tasks, then the
  cap-exceeded message, and invokes the shutdown hook; \<open>completedTasks\<close> has grown by exactly
  these \<open>C\<close> tasks. In a run, where \<open>completedTasks\<close> starts empty, its length is \<open>C\<close>.
\<close>

theorem loop_cap_exceeded:
  assumes "isRunning a" and "numLoops a = 0"
    and "maxLoops ev a = int C" and "C < length (tasks a)"
    and "\<forall>n. stopCalls ev n = 0"
    and "\<forall>n ms g t. \<not> isl (executeTaskAgent ev n ms g t)"
    and "\<forall>n u d. \<not> isl (axios_post ev n u d)"
  shows "snd (loop ev a) = Inr () \<and>
         length (actions (fst (loop ev a))) = length (actions a) + C \<and>
         map info (actions (fst (loop ev a))) =
           map info (actions a)
           @ map (\<lambda>t. Some (''Executing '' @ [CHR 0x22] @ t @ [CHR 0x22])) (take C (tasks a)) \<and>
         executions (fst (loop ev a)) = executions a @ take C (tasks a) \<and>
         suffix [Rendered (loopMessage a), Shutdown] (effects (fst (loop ev a))) \<and>
         shutdowns (fst (loop ev a)) = Suc (shutdowns a) \<and>
         completedTasks (fst (loop ev a)) = completedTasks a @ take C (tasks a) \<and>
         length (completedTasks (fst (loop ev a))) = length (completedTasks a) + C"
proof -
  have cap: "numLoops a \<le> maxLoops ev a"
    using assms(2,3) by simp
  have cnt: "executed_count ev a = C"
    using assms(2,3,4) by (simp add: executed_count_def)
  have lm: "lastMessage ev a = loopMessage a"
    using assms(2,3,4) by (simp add: lastMessage_def)
  from quiet_loop [OF assms(5,6,7,1) cap]
  obtain es where res: "snd (loop ev a) = Inr ()"
    and ct: "completedTasks (fst (loop ev a)) = completedTasks a @ take C (tasks a)"
    and es: "effects (fst (loop ev a)) = effects a @ es @ [Rendered (loopMessage a), Shutdown]"
      "executedOf es = take C (tasks a)"
      "map info (filter (\<lambda>m. type' m = Action) (renderedOf es)) =
         map (\<lambda>t. Some (''Executing '' @ [CHR 0x22] @ t @ [CHR 0x22])) (take C (tasks a))"
      "count_list es Shutdown = 0"
    unfolding cnt lm by auto
  have len: "length (filter (\<lambda>m. type' m = Action) (renderedOf es)) = C"
    using arg_cong [OF es(3), of length] assms(4) by simp
  have "suffix [Rendered (loopMessage a), Shutdown] (effects (fst (loop ev a)))"
    unfolding es(1) suffix_def by (intro exI [of _ "effects a @ es"]) simp
  then show ?thesis
    using res ct es(2,3,4) len assms(4)
    by (simp add: es(1) actions_def rendered_def executions_def shutdowns_def loopMessage_def)
qed

theorem loop_cap_exceeded_witness:
  "snd (run example_env (new_agent ''agent'' ''a shop'' no_key None)) = Inr () \<and>
   length (actions (fst (run example_env (new_agent ''agent'' ''a shop'' no_key None)))) = 4 \<and>
   suffix [Rendered (loopMessage (new_agent ''agent'' ''a shop'' no_key None)), Shutdown]
     (effects (fst (run example_env (new_agent ''agent'' ''a shop'' no_key None)))) \<and>
   length (completedTasks (fst (run example_env (new_agent ''agent'' ''a shop'' no_key None)))) = 4"
proof -
  let ?fresh = "new_agent ''agent'' ''a shop'' no_key None"
  let ?entry = "loopEntry example_env ?fresh"
  have quiet: "\<forall>n. stopCalls example_env n = 0" by simp
  have 1: "isRunning ?entry"
    by (rule loopEntry_quiet(1)) simp_all
  have 2: "numLoops ?entry = 0" by simp
  have 3: "maxLoops example_env ?entry = int 4"
    by (simp add: maxLoops_def no_key_def truthy_string_def)
  have 4: "4 < length (tasks ?entry)" by (simp add: initialTasks_def)
  have 5: "\<forall>n ms g t. \<not> isl (executeTaskAgent example_env n ms g t)" by simp
  have 6: "\<forall>n u d. \<not> isl (axios_post example_env n u d)" by simp
  have obs: "actions ?entry = []"
    using loopEntry_observations [OF quiet, of ?fresh]
    by (simp_all add: actions_def rendered_def)
  show ?thesis
    using loop_cap_exceeded [OF 1 2 3 4 quiet 5 6] obs
    by (simp add: run_loopEntry initialTasks_def)
qed

section \<open>Failing executions\<close>

text \<open>
  C6. A run in remote mode (no custom credential) whose every execution request fails with
  HTTP 429, with a cap of at least one and nobody calling \<open>stopAgent\<close>: the failure is
  raised to the caller of the dispatch and leaves \<open>run\<close>, the shutdown hook is invoked once,
  the only system message delivered is the rate-limit notice, and no action message is
  delivered. The only execution started is that of the first task.
\<close>

theorem rate_limited_run:
  assumes "\<not> truthy_string (customApiKey ms)"
    and "\<forall>k url d. axios_post ev k url d = Inl (AxiosError (Some 429))"
    and "\<forall>k. stopCalls ev k = 0"
    and "1 \<le> maxLoops ev (new_agent n g ms s)"
  shows "snd (run ev (new_agent n g ms s)) = Inl (AxiosError (Some 429)) \<and>
         shutdowns (fst (run ev (new_agent n g ms s))) = 1 \<and>
         systems (fst (run ev (new_agent n g ms s))) = [errorMessage rateLimitNotice] \<and>
         actions (fst (run ev (new_agent n g ms s))) = [] \<and>
         executions (fst (run ev (new_agent n g ms s))) = [''Introduction'']"
proof -
  let ?fresh = "new_agent n g ms s"
  let ?b = "beforeExecution ev (loopEntry ev ?fresh)"
  have remote: "\<not> shouldRunClientSide ?b"
    using assms(1) by (simp add: shouldRunClientSide_def)
  have fail: "answer ev ?b ''Introduction'' = Inl (AxiosError (Some 429))"
    using remote assms(2) by (simp add: answer_def)
  have run: "run ev ?fresh = (fst (executeTask ev ?b ''Introduction''), Inl (AxiosError (Some 429)))"
    by (rule first_execution_fails [OF assms(3) _ _ assms(4) fail]) simp_all
  have entry: "effects (loopEntry ev ?fresh) =
      [Rendered \<lparr>type' = Goal, info = None, value' = g\<rparr>, Rendered thinkingMessage]
      @ map (\<lambda>t. Rendered (taskMessage t)) initialTasks"
    using loopEntry_quiet(2) [OF assms(3), of ?fresh] by simp
  have running: "isRunning (loopEntry ev ?fresh)"
    using loopEntry_quiet(1) [OF assms(3), of ?fresh] by simp
  have eff: "effects (fst (run ev ?fresh)) =
      [Rendered \<lparr>type' = Goal, info = None, value' = g\<rparr>, Rendered thinkingMessage]
      @ map (\<lambda>t. Rendered (taskMessage t)) initialTasks
      @ [Rendered thinkingMessage, Executed ''Introduction'', Shutdown,
         Rendered (errorMessage rateLimitNotice)]"
    using remote fail assms(3) running
    by (simp add: run executeTask_effects beforeExecution_effects entry stopEffects_quiet)
  have res: "snd (run ev ?fresh) = Inl (AxiosError (Some 429))"
    by (simp add: run)
  show ?thesis
    using res
    by (simp add: eff shutdowns_def systems_def actions_def executions_def rendered_def
        thinkingMessage_def taskMessage_def errorMessage_def initialTasks_def)
qed

theorem rate_limited_run_witness:
  "snd (run (failing_env 429) (new_agent ''agent'' ''a shop'' no_key None)) =
     Inl (AxiosError (Some 429)) \<and>
   shutdowns (fst (run (failing_env 429) (new_agent ''agent'' ''a shop'' no_key None))) = 1 \<and>
   systems (fst (run (failing_env 429) (new_agent ''agent'' ''a shop'' no_key None))) =
     [errorMessage rateLimitNotice] \<and>
   actions (fst (run (failing_env 429) (new_agent ''agent'' ''a shop'' no_key None))) = []"
  using rate_limited_run [of no_key "failing_env 429" "''agent''" "''a shop''" None]
  by (simp add: no_key_def truthy_string_def maxLoops_def)

text \<open>
  C7. A remote request that fails with anything but HTTP 429: \<open>post\<close> raises the failure
  it caught; beyond the request itself and whatever \<open>stopAgent\<close> calls did while it was
  suspended, its only effect is one invocation of the shutdown hook, so it delivers no
  message. The loop does not catch the failure: the tick ends with it, in the state that
  \<open>post\<close> left.
\<close>

theorem remote_failure_not_429:
  assumes "axios_post ev (awaits a) url d = Inl e" and "e \<noteq> AxiosError (Some 429)"
  shows "snd (post ev a url d) = Inl e \<and>
         effects (fst (post ev a url d)) =
           effects a @ [Executed (case d of RequestBody _ _ t \<Rightarrow> t)] @ stopEffects ev a
           @ [Shutdown] \<and>
         (stopCalls ev (awaits a) = 0 \<longrightarrow>
            rendered (fst (post ev a url d)) = rendered a \<and>
            shutdowns (fst (post ev a url d)) = Suc (shutdowns a)) \<and>
         (\<forall>b. isRunning b \<and> tasks b \<noteq> [] \<and> numLoops b < maxLoops ev b \<and>
              \<not> shouldRunClientSide b \<and> a = beforeExecution ev b \<and>
              url = ''/api/agent/execute'' \<and>
              d = RequestBody (modelSettings b) (goal b) (hd (tasks b))
              \<longrightarrow> loop ev b = (fst (post ev a url d), Inl e))"
proof -
  have eff: "effects (fst (post ev a url d)) =
      effects a @ [Executed (case d of RequestBody _ _ t \<Rightarrow> t)] @ stopEffects ev a @ [Shutdown]"
    using assms by (simp add: post_effects)
  have quiet: "stopCalls ev (awaits a) = 0 \<longrightarrow>
      rendered (fst (post ev a url d)) = rendered a \<and>
      shutdowns (fst (post ev a url d)) = Suc (shutdowns a)"
    by (simp add: eff rendered_def shutdowns_def stopEffects_quiet)
  have "loop ev b = (fst (post ev a url d), Inl e)"
    if b: "isRunning b" "tasks b \<noteq> []" "numLoops b < maxLoops ev b" "\<not> shouldRunClientSide b"
      "a = beforeExecution ev b" "url = ''/api/agent/execute''"
      "d = RequestBody (modelSettings b) (goal b) (hd (tasks b))" for b
  proof -
    have remote: "\<not> shouldRunClientSide a"
      using b(4,5) shouldRunClientSide_cong [of a b] by simp
    have "answer ev a (hd (tasks b)) = Inl e"
      using assms(1) remote b(5,6,7) by (simp add: answer_def)
    then have "loop ev b = (fst (executeTask ev a (hd (tasks b))), Inl e)"
      using failing_tick [OF b(1,2,3)] b(5) by simp
    then show ?thesis
      using executeTask_remote [OF remote, of ev "hd (tasks b)"] b(5,6,7) by simp
  qed
  then show ?thesis
    using assms(1) eff quiet by simp
qed

theorem remote_failure_not_429_witness:
  "snd (run (failing_env 500) (new_agent ''agent'' ''a shop'' no_key None)) =
     Inl (AxiosError (Some 500)) \<and>
   systems (fst (run (failing_env 500) (new_agent ''agent'' ''a shop'' no_key None))) = [] \<and>
   shutdowns (fst (run (failing_env 500) (new_agent ''agent'' ''a shop'' no_key None))) = 1"
proof -
  let ?ev = "failing_env 500"
  let ?entry = "loopEntry ?ev (new_agent ''agent'' ''a shop'' no_key None)"
  let ?b = "beforeExecution ?ev ?entry"
  let ?d = "RequestBody (modelSettings ?entry) (goal ?entry) (hd (tasks ?entry))"
  have quiet: "\<forall>n. stopCalls ?ev n = 0" by simp
  have running: "isRunning ?entry"
    by (rule loopEntry_quiet(1) [OF quiet]) simp
  have entry: "effects ?entry =
      [Rendered \<lparr>type' = Goal, info = None, value' = ''a shop''\<rparr>, Rendered thinkingMessage]
      @ map (\<lambda>t. Rendered (taskMessage t)) initialTasks"
    using loopEntry_quiet(2) [OF quiet, of "new_agent ''agent'' ''a shop'' no_key None"] by simp
  have 1: "axios_post ?ev (awaits ?b) ''/api/agent/execute'' ?d = Inl (AxiosError (Some 500))"
    by simp
  have 2: "AxiosError (Some 500) \<noteq> AxiosError (Some 429)" by simp
  have pre: "isRunning ?entry \<and> tasks ?entry \<noteq> [] \<and> numLoops ?entry < maxLoops ?ev ?entry \<and>
      \<not> shouldRunClientSide ?entry"
    using running by (simp add: maxLoops_def no_key_def truthy_string_def shouldRunClientSide_def)
  from remote_failure_not_429 [OF 1 2]
  have eff: "effects (fst (post ?ev ?b ''/api/agent/execute'' ?d)) =
           effects ?b @ [Executed (case ?d of RequestBody _ _ t \<Rightarrow> t)] @ stopEffects ?ev ?b
           @ [Shutdown]"
    and loop: "loop ?ev ?entry = (fst (post ?ev ?b ''/api/agent/execute'' ?d), Inl (AxiosError (Some 500)))"
    using pre by blast+
  have "snd (run ?ev (new_agent ''agent'' ''a shop'' no_key None)) = Inl (AxiosError (Some 500))"
    using loop by (simp add: run_loopEntry)
  moreover have "effects (fst (run ?ev (new_agent ''agent'' ''a shop'' no_key None))) =
      effects ?entry @ [Rendered thinkingMessage, Executed ''Introduction'', Shutdown]"
    using running loop eff
    by (simp add: run_loopEntry beforeExecution_effects stopEffects_quiet)
  ultimately show ?thesis
    by (simp add: entry systems_def shutdowns_def rendered_def thinkingMessage_def
        taskMessage_def initialTasks_def)
qed

section \<open>The order of a tick\<close>

text \<open>
  C8, as the code has it. In a tick that performs work, the task at the front of the queue
  is appended to \<open>completedTasks\<close> and dequeued before the task-execution capability is
  invoked; \<open>runningTasks\<close> is unchanged at that moment and while the execution runs, and the
  task is appended to it only when the execution has returned. When nobody calls
  \<open>stopAgent\<close> during the pacing delay and the execution, the tick delivers a thinking
  message, starts the execution and, when the execution returns \<open>r\<close>, delivers an action
  message with the task text and \<open>r\<close>, in this order.
\<close>

theorem tick_order:
  assumes "isRunning a" and "tasks a = t # ts" and "numLoops a < maxLoops ev a"
  shows "completedTasks (beforeExecution ev a) = completedTasks a @ [t] \<and>
         tasks (beforeExecution ev a) = ts \<and>
         runningTasks (beforeExecution ev a) = runningTasks a \<and>
         loop ev a =
           (case executeTask ev (beforeExecution ev a) t of
              (a6, Inl e) \<Rightarrow> (a6, Inl e)
            | (a6, Inr r) \<Rightarrow> loop ev (afterExecution ev a6 t r)) \<and>
         runningTasks (fst (executeTask ev (beforeExecution ev a) t)) = runningTasks a \<and>
         runningTasks (afterExecution ev (fst (executeTask ev (beforeExecution ev a) t)) t r) =
           runningTasks a @ [t] \<and>
         completedTasks (afterExecution ev (fst (executeTask ev (beforeExecution ev a) t)) t r) =
           completedTasks a @ [t] \<and>
         tasks (afterExecution ev (fst (executeTask ev (beforeExecution ev a) t)) t r) = ts \<and>
         (stopCalls ev (awaits a) = 0 \<and> stopCalls ev (Suc (awaits a)) = 0 \<longrightarrow>
            effects (beforeExecution ev a) = effects a @ [Rendered thinkingMessage] \<and>
            prefix (effects a @ [Rendered thinkingMessage, Executed t])
              (effects (fst (executeTask ev (beforeExecution ev a) t))) \<and>
            (snd (executeTask ev (beforeExecution ev a) t) = Inr r \<longrightarrow>
               effects (afterExecution ev (fst (executeTask ev (beforeExecution ev a) t)) t r) =
                 effects a @ [Rendered thinkingMessage, Executed t,
                              Rendered \<lparr>type' = Action,
                                       info = Some (''Executing '' @ [CHR 0x22] @ t @ [CHR 0x22]),
                                       value' = r\<rparr>]
                 @ stopEffects ev (fst (executeTask ev (beforeExecution ev a) t))))"
proof -
  let ?b = "beforeExecution ev a"
  let ?a6 = "fst (executeTask ev ?b t)"
  have step: "loop ev a =
           (case executeTask ev ?b t of
              (a6, Inl e) \<Rightarrow> (a6, Inl e)
            | (a6, Inr r) \<Rightarrow> loop ev (afterExecution ev a6 t r))"
    using assms by (subst loop_tick) simp
  have books: "completedTasks ?b = completedTasks a @ [t] \<and> tasks ?b = ts \<and>
      runningTasks ?b = runningTasks a \<and> runningTasks ?a6 = runningTasks a \<and>
      runningTasks (afterExecution ev ?a6 t r) = runningTasks a @ [t] \<and>
      completedTasks (afterExecution ev ?a6 t r) = completedTasks a @ [t] \<and>
      tasks (afterExecution ev ?a6 t r) = ts"
    using assms(2) by simp
  have trace: "effects ?b = effects a @ [Rendered thinkingMessage] \<and>
      prefix (effects a @ [Rendered thinkingMessage, Executed t]) (effects ?a6) \<and>
      (snd (executeTask ev ?b t) = Inr r \<longrightarrow>
         effects (afterExecution ev ?a6 t r) =
           effects a @ [Rendered thinkingMessage, Executed t,
                        Rendered \<lparr>type' = Action,
                                 info = Some (''Executing '' @ [CHR 0x22] @ t @ [CHR 0x22]),
                                 value' = r\<rparr>]
           @ stopEffects ev ?a6)"
    if quiet: "stopCalls ev (awaits a) = 0" "stopCalls ev (Suc (awaits a)) = 0"
  proof -
    have b: "effects ?b = effects a @ [Rendered thinkingMessage]"
      using assms(1) quiet(1) by (simp add: beforeExecution_effects stopEffects_quiet)
    have q: "stopEffects ev ?b = []"
      using quiet(2) by (simp add: stopEffects_quiet)
    have pre: "prefix (effects a @ [Rendered thinkingMessage, Executed t]) (effects ?a6)"
      by (simp add: executeTask_effects b q prefix_def)
    have after: "effects (afterExecution ev ?a6 t r) =
           effects a @ [Rendered thinkingMessage, Executed t,
                        Rendered \<lparr>type' = Action,
                                 info = Some (''Executing '' @ [CHR 0x22] @ t @ [CHR 0x22]),
                                 value' = r\<rparr>]
           @ stopEffects ev ?a6"
      if "snd (executeTask ev ?b t) = Inr r"
    proof -
      have r: "answer ev ?b t = Inr r"
        using that by simp
      have e6: "effects ?a6 = effects a @ [Rendered thinkingMessage, Executed t]"
        using r by (simp add: executeTask_effects b q)
      have r6: "isRunning ?a6"
        using assms(1) quiet by simp
      show ?thesis
        using r6 by (simp add: afterExecution_effects e6 executionMessage_def)
    qed
    show ?thesis
      using b pre after by blast
  qed
  show ?thesis
    using step books trace by blast
qed

theorem tick_order_witness:
  "effects (beforeExecution example_env ((new_agent ''agent'' ''g'' no_key None)\<lparr>tasks := [''t1'', ''t2'']\<rparr>)) =
     [Rendered thinkingMessage] \<and>
   completedTasks (beforeExecution example_env ((new_agent ''agent'' ''g'' no_key None)\<lparr>tasks := [''t1'', ''t2'']\<rparr>)) =
     [''t1''] \<and>
   runningTasks (beforeExecution example_env ((new_agent ''agent'' ''g'' no_key None)\<lparr>tasks := [''t1'', ''t2'']\<rparr>)) =
     [] \<and>
   runningTasks
     (afterExecution example_env
        (fst (executeTask example_env
               (beforeExecution example_env ((new_agent ''agent'' ''g'' no_key None)\<lparr>tasks := [''t1'', ''t2'']\<rparr>))
               ''t1''))
        ''t1'' ''remote'') = [''t1''] \<and>
   effects
     (afterExecution example_env
        (fst (executeTask example_env
               (beforeExecution example_env ((new_agent ''agent'' ''g'' no_key None)\<lparr>tasks := [''t1'', ''t2'']\<rparr>))
               ''t1''))
        ''t1'' ''remote'') =
     [Rendered thinkingMessage, Executed ''t1'', Rendered (executionMessage ''t1'' ''remote'')]"
proof -
  let ?a = "(new_agent ''agent'' ''g'' no_key None)\<lparr>tasks := [''t1'', ''t2'']\<rparr>"
  have 1: "isRunning ?a" and 2: "tasks ?a = [''t1'', ''t2'']"
    and 3: "numLoops ?a < maxLoops example_env ?a"
    and 4: "stopCalls example_env (awaits ?a) = 0 \<and> stopCalls example_env (Suc (awaits ?a)) = 0"
    by (simp_all add: maxLoops_def no_key_def truthy_string_def)
  have 5: "snd (executeTask example_env (beforeExecution example_env ?a) ''t1'') = Inr ''remote''"
    by (simp add: answer_def shouldRunClientSide_def no_key_def truthy_string_def)
  show ?thesis
    using tick_order [OF 1 2 3, of "''remote''"] 4 5
    by (simp add: stopEffects_quiet executionMessage_def)
qed

text \<open>
  C8 as it is written fails: the task is not in \<open>runningTasks\<close> when its execution is
  invoked. A run whose first execution fails has executed ``Introduction'' and holds it in
  \<open>completedTasks\<close>, but not in \<open>runningTasks\<close>.
\<close>

theorem runningTasks_after_failure:
  "executions (fst (run (failing_env 500) (new_agent ''agent'' ''a shop'' no_key None))) =
     [''Introduction''] \<and>
   completedTasks (fst (run (failing_env 500) (new_agent ''agent'' ''a shop'' no_key None))) =
     [''Introduction''] \<and>
   runningTasks (fst (run (failing_env 500) (new_agent ''agent'' ''a shop'' no_key None))) = []"
proof -
  let ?ev = "failing_env 500"
  let ?fresh = "new_agent ''agent'' ''a shop'' no_key None"
  let ?b = "beforeExecution ?ev (loopEntry ?ev ?fresh)"
  have quiet: "\<forall>n. stopCalls ?ev n = 0" by simp
  have remote: "\<not> shouldRunClientSide ?b"
    by (simp add: shouldRunClientSide_def no_key_def truthy_string_def)
  have fail: "answer ?ev ?b ''Introduction'' = Inl (AxiosError (Some 500))"
    using remote by (simp add: answer_def)
  have run: "run ?ev ?fresh = (fst (executeTask ?ev ?b ''Introduction''), Inl (AxiosError (Some 500)))"
    by (rule first_execution_fails [OF quiet _ _ _ fail])
       (simp_all add: maxLoops_def no_key_def truthy_string_def)
  have running: "isRunning (loopEntry ?ev ?fresh)"
    using loopEntry_quiet(1) [OF quiet, of ?fresh] by simp
  have entry: "executions (loopEntry ?ev ?fresh) = []"
    using loopEntry_observations(2) [OF quiet, of ?fresh] by (simp add: executions_def)
  have "executions (fst (run ?ev ?fresh)) = [''Introduction'']"
    using remote fail running entry
    by (simp add: run executions_def executeTask_effects beforeExecution_effects
        stopEffects_quiet thinkingMessage_def)
  then show ?thesis
    by (simp add: run initialTasks_def)
qed

section \<open>After the stop\<close>

text \<open>
  C4, as the code has it. Once \<open>isRunning\<close> is false, \<open>sendMessage\<close> delivers nothing, a
  tick returns at once, and a run delivers nothing and starts no execution. In every run
  of a fresh controller, whatever the \<open>stopAgent\<close> calls and the failures: \<open>isRunning\<close> is
  false at the end exactly when the manual-shutdown message was delivered; nothing is
  delivered after that message, not even the action message of an execution that was in
  flight; and at most one execution is started after it, by the tick that had passed the
  guard of line 73 when \<open>stopAgent\<close> was called.
\<close>

theorem dead_after_stop:
  "(\<not> isRunning a \<longrightarrow>
      sendMessage a m = a \<and> loop ev a = (a, Inr ()) \<and>
      \<not> isRunning (fst (run ev a)) \<and> rendered (fst (run ev a)) = rendered a \<and>
      executions (fst (run ev a)) = executions a) \<and>
   (\<not> isRunning (fst (run ev (new_agent n g ms s))) \<longleftrightarrow>
      Rendered manualShutdownMessage \<in> set (effects (fst (run ev (new_agent n g ms s))))) \<and>
   renderedOf (afterStop (effects (fst (run ev (new_agent n g ms s))))) = [] \<and>
   length (executedOf (afterStop (effects (fst (run ev (new_agent n g ms s)))))) \<le> 1"
proof -
  let ?F = "fst (run ev (new_agent n g ms s))"
  have inv: "stoppedOnce 1 ?F"
    by (rule stoppedOnce_run [OF stoppedOnce_new_agent])
  have flag: "\<not> isRunning ?F \<longleftrightarrow> Rendered manualShutdownMessage \<in> set (effects ?F)"
    using inv unfolding stoppedOnce_def by presburger
  have tail: "renderedOf (afterStop (effects ?F)) = [] \<and>
      length (executedOf (afterStop (effects ?F))) \<le> 1"
  proof (cases "isRunning ?F")
    case True
    then have "afterStop (effects ?F) = []"
      using inv by (simp add: stoppedOnce_def afterStop_notin)
    then show ?thesis by simp
  next
    case False
    then show ?thesis
      using inv by (simp add: stoppedOnce_def)
  qed
  show ?thesis
    using stopped_sendMessage [of a m] stopped_loop [of a ev] stopped_run [of a ev] flag tail
    by blast
qed

theorem dead_after_stop_witness:
  "\<not> isRunning (fst (run (stop_env 9) (new_agent ''agent'' ''a shop'' no_key None))) \<and>
   Rendered manualShutdownMessage
     \<in> set (effects (fst (run (stop_env 9) (new_agent ''agent'' ''a shop'' no_key None)))) \<and>
   renderedOf (afterStop (effects (fst (run (stop_env 9) (new_agent ''agent'' ''a shop'' no_key None))))) = [] \<and>
   loop (stop_env 9) (fst (run (stop_env 9) (new_agent ''agent'' ''a shop'' no_key None))) =
     (fst (run (stop_env 9) (new_agent ''agent'' ''a shop'' no_key None)), Inr ())"
proof -
  let ?F = "fst (run (stop_env 9) (new_agent ''agent'' ''a shop'' no_key None))"
  have "\<not> isRunning ?F"
    by code_simp
  then show ?thesis
    using dead_after_stop [of ?F _ "stop_env 9" "''agent''" "''a shop''" no_key None]
    by simp
qed

text \<open>
  C4 as it is written fails: \<open>stopAgent\<close> called during the pacing delay of line 92 does
  not prevent the execution of line 100. The record of this run shows the execution of
  ``Introduction'' after the manual-shutdown message and the shutdown.
\<close>

theorem execution_after_stop:
  "effects (fst (run (stop_env 8) (new_agent ''agent'' ''a shop'' no_key None))) =
     [Rendered \<lparr>type' = Goal, info = None, value' = ''a shop''\<rparr>,
      Rendered thinkingMessage,
      Rendered (taskMessage ''Introduction''),
      Rendered (taskMessage ''Concept''),
      Rendered (taskMessage ''Problem it aims to solve''),
      Rendered (taskMessage ''Target audience''),
      Rendered (taskMessage ''Unique selling point''),
      Rendered (taskMessage ''Competitors''),
      Rendered (taskMessage ''Market fit''),
      Rendered (taskMessage ''Specific details to consider''),
      Rendered manualShutdownMessage,
      Shutdown,
      Executed ''Introduction'']"
  by code_simp

text \<open>
  C5. On a running controller \<open>stopAgent\<close> delivers the manual-shutdown message, then sets
  \<open>isRunning\<close> to false, then invokes the shutdown hook. When it is called before any task
  has executed, that is during one of the first ten suspensions of the run (the eight pacing
  delays of the decomposition, the first pacing delay of the loop, the first execution), or
  before \<open>run\<close>, the run delivers no action message and exactly one system message, the
  manual-shutdown message.
\<close>

theorem stopAgent_before_first_execution:
  "(isRunning a \<longrightarrow>
      effects (stopAgent a) = effects a @ [Rendered manualShutdownMessage, Shutdown] \<and>
      \<not> isRunning (stopAgent a)) \<and>
   (k \<le> 9 \<and> 0 < stopCalls ev k \<and> k < awaits (fst (run ev (new_agent n g ms s))) \<longrightarrow>
      actions (fst (run ev (new_agent n g ms s))) = [] \<and>
      systems (fst (run ev (new_agent n g ms s))) = [manualShutdownMessage]) \<and>
   rendered (fst (run ev (stopAgent (new_agent n g ms s)))) = [manualShutdownMessage]"
proof -
  let ?fresh = "new_agent n g ms s"
  let ?entry = "loopEntry ev ?fresh"
  have a: "isRunning a \<longrightarrow>
      effects (stopAgent a) = effects a @ [Rendered manualShutdownMessage, Shutdown] \<and>
      \<not> isRunning (stopAgent a)"
    by (simp add: stopAgent_effects)
  have b: "actions (fst (run ev ?fresh)) = [] \<and>
      systems (fst (run ev ?fresh)) = [manualShutdownMessage]"
    if k: "k \<le> 9" "0 < stopCalls ev k" "k < awaits (fst (run ev ?fresh))"
  proof -
    have "onlyManual (fst (loop ev ?entry)) \<and> \<not> isRunning (fst (loop ev ?entry))"
      by (rule stopped_before_first_action [where k = k,
            OF onlyManual_loopEntry [OF onlyManual_new_agent]
               synced_loopEntry [OF synced_new_agent]])
         (use k in \<open>simp_all add: run_loopEntry\<close>)
    then show ?thesis
      by (simp add: run_loopEntry onlyManual_def)
  qed
  have c: "rendered (fst (run ev (stopAgent ?fresh))) = [manualShutdownMessage]"
    using stopped_run [of "stopAgent ?fresh" ev]
    by (simp add: rendered_def stopAgent_effects)
  show ?thesis
    using a b c by blast
qed

theorem stopAgent_before_first_execution_witness:
  "effects (stopAgent (new_agent ''agent'' ''a shop'' no_key None)) =
     [Rendered manualShutdownMessage, Shutdown] \<and>
   actions (fst (run (stop_env 0) (new_agent ''agent'' ''a shop'' no_key None))) = [] \<and>
   systems (fst (run (stop_env 0) (new_agent ''agent'' ''a shop'' no_key None))) =
     [manualShutdownMessage]"
proof -
  have 1: "0 < stopCalls (stop_env 0) 0"
    by (simp add: stop_env_def)
  have 2: "0 < awaits (fst (run (stop_env 0) (new_agent ''agent'' ''a shop'' no_key None)))"
    by code_simp
  show ?thesis
    using stopAgent_before_first_execution [of "new_agent ''agent'' ''a shop'' no_key None" 0 "stop_env 0"
        "''agent''" "''a shop''" no_key None] 1 2
    by simp
qed

end
